theory Spec2Isabelle
  imports Complex_Main "HOL-Library.Sublist"
begin

section \<open>StreamScribe Enhanced: chunked transcription of a long audio stream\<close>

text \<open>
  A shallow embedding of \<^verbatim>\<open>src/streamscribe_enhanced.py\<close> (class
  \<^verbatim>\<open>ChunkedStreamScribe\<close> and \<^verbatim>\<open>main\<close>).

  Conventions of the embedding:
  \<^item> Python integers are \<^typ>\<open>int\<close>. The chunk length and the overlap are integers
    (\<^verbatim>\<open>argparse\<close> with \<^verbatim>\<open>type=int\<close>); the total duration reported by the
    metadata extractor is taken to be an integer number of seconds.
  \<^item> The argument of \<^verbatim>\<open>_seconds_to_srt_time\<close> is a Python float; it is modelled
    by an exact real number, so rounding of binary floating point is not modelled.
  \<^item> Python strings and byte strings are \<^typ>\<open>string\<close>.
  \<^item> The external collaborators (the metadata extractor, the media tool, the speech
    model, the clock) are parameters of the functions that call them.
  \<^item> The file system is a map from file names to documents; writing never fails.
  \<^item> Console output and the progress bar display are not modelled.
\<close>

subsection \<open>Python numbers and strings\<close>

datatype py_error = ZeroDivisionError | AttributeError | ExternalError

text \<open>\<^verbatim>\<open>x // y\<close> and \<^verbatim>\<open>x % y\<close> on floats (for \<open>y > 0\<close>): floor division and its remainder.\<close>

definition py_floordiv :: "real \<Rightarrow> real \<Rightarrow> real" where
  "py_floordiv x y = of_int \<lfloor>x / y\<rfloor>"

definition py_mod :: "real \<Rightarrow> real \<Rightarrow> real" where
  "py_mod x y = x - y * of_int \<lfloor>x / y\<rfloor>"

text \<open>\<^verbatim>\<open>int(x)\<close> on a float truncates towards zero.\<close>

definition py_int :: "real \<Rightarrow> int" where
  "py_int x = (if x < 0 then \<lceil>x\<rceil> else \<lfloor>x\<rfloor>)"

definition digit_char :: "nat \<Rightarrow> char" where
  "digit_char d = ''0123456789'' ! d"

text \<open>\<^verbatim>\<open>str(n)\<close> for a natural number: its decimal digits.\<close>

fun str_nat :: "nat \<Rightarrow> string" where
  "str_nat n = (if n < 10 then [digit_char n] else str_nat (n div 10) @ [digit_char (n mod 10)])"

declare str_nat.simps [simp del]

definition str_int :: "int \<Rightarrow> string" where
  "str_int i = (if i < 0 then ''-'' @ str_nat (nat (- i)) else str_nat (nat i))"

definition zero_pad :: "nat \<Rightarrow> string \<Rightarrow> string" where
  "zero_pad w s = replicate (w - length s) (CHR ''0'') @ s"

text \<open>The format specification \<^verbatim>\<open>{i:0wd}\<close>: sign first, then zeros up to width \<open>w\<close>.\<close>

definition format_0d :: "nat \<Rightarrow> int \<Rightarrow> string" where
  "format_0d w i =
     (if i < 0 then ''-'' @ zero_pad (w - 1) (str_nat (nat (- i)))
      else zero_pad w (str_nat (nat i)))"


text \<open>\<^verbatim>\<open>a / b\<close> on integers: true division, which raises on a zero divisor.\<close>

definition py_truediv :: "int \<Rightarrow> int \<Rightarrow> py_error + real" where
  "py_truediv a b = (if b = 0 then Inl ZeroDivisionError else Inr (of_int a / of_int b))"

text \<open>\<^verbatim>\<open>str.isspace\<close> and \<^verbatim>\<open>str.isalnum\<close> on the ASCII range.\<close>

definition isspace :: "char \<Rightarrow> bool" where
  "isspace c = (let n = (of_char c :: nat) in (9 \<le> n \<and> n \<le> 13) \<or> (28 \<le> n \<and> n \<le> 32))"

definition isalnum :: "char \<Rightarrow> bool" where
  "isalnum c = (let n = (of_char c :: nat) in
     (48 \<le> n \<and> n \<le> 57) \<or> (65 \<le> n \<and> n \<le> 90) \<or> (97 \<le> n \<and> n \<le> 122))"

text \<open>\<^verbatim>\<open>s.strip()\<close>: leading and trailing whitespace removed.\<close>

definition strip :: "string \<Rightarrow> string" where
  "strip s = rev (dropWhile isspace (rev (dropWhile isspace s)))"

text \<open>\<^verbatim>\<open>s.replace(old, new)\<close>: every non-overlapping occurrence, from the left.\<close>

fun replace_nonempty :: "string \<Rightarrow> string \<Rightarrow> string \<Rightarrow> string" where
  "replace_nonempty old new [] = []"
| "replace_nonempty old new (c # cs) =
     (if prefix old (c # cs)
      then new @ replace_nonempty old new (drop (length old - 1) cs)
      else c # replace_nonempty old new cs)"

definition replace_str :: "string \<Rightarrow> string \<Rightarrow> string \<Rightarrow> string" where
  "replace_str old new s =
     (if old = [] then new @ concat (map (\<lambda>c. c # new) s) else replace_nonempty old new s)"

text \<open>\<^verbatim>\<open>os.path.join(a, b)\<close> for two components (POSIX).\<close>

definition path_join :: "string \<Rightarrow> string \<Rightarrow> string" where
  "path_join a b =
     (if b \<noteq> [] \<and> hd b = CHR ''/'' then b
      else if a = [] \<or> last a = CHR ''/'' then a @ b
      else a @ ''/'' @ b)"

subsection \<open>Time formats\<close>

definition seconds_to_srt_time :: "real \<Rightarrow> string" where
  "seconds_to_srt_time seconds =
     (let hours = py_int (py_floordiv seconds 3600);
          minutes = py_int (py_floordiv (py_mod seconds 3600) 60);
          secs = py_int (py_mod seconds 60);
          millisecs = py_int (py_mod seconds 1 * 1000)
      in format_0d 2 hours @ '':'' @ format_0d 2 minutes @ '':'' @ format_0d 2 secs
         @ '','' @ format_0d 3 millisecs)"

text \<open>
  \<^verbatim>\<open>format_time\<close> is \<^verbatim>\<open>str(timedelta(seconds=int(seconds)))\<close>. A \<^verbatim>\<open>timedelta\<close> is
  normalised to whole days and a remainder in \<open>[0, 86400)\<close>; its string is
  \<^verbatim>\<open>H:MM:SS\<close>, preceded by the days when there are any.
\<close>

definition format_time :: "int \<Rightarrow> string" where
  "format_time seconds =
     (let days = seconds div 86400;
          rest = seconds mod 86400;
          hms = str_int (rest div 3600) @ '':'' @ format_0d 2 (rest mod 3600 div 60)
                @ '':'' @ format_0d 2 (rest mod 60)
      in if days \<noteq> 0
         then str_int days @ '' day'' @ (if \<bar>days\<bar> \<noteq> 1 then ''s'' else []) @ '', '' @ hms
         else hms)"

subsection \<open>Data model\<close>

text \<open>
  The dictionaries that carry a chunk and a transcript segment share the keys
  \<^verbatim>\<open>start_time\<close>, \<^verbatim>\<open>duration\<close> and \<^verbatim>\<open>chunk_number\<close>.
\<close>

record window =
  start_time :: int
  duration :: int
  chunk_number :: int

record chunk = window +
  data :: string

record transcript = window +
  "text" :: string
  end_time :: int
  language :: string
  timestamp :: string

text \<open>The dictionary returned by \<^verbatim>\<open>extract_youtube_info\<close>.\<close>

record video_info =
  vi_title :: string
  vi_duration :: int
  vi_audio_url :: "string option"
  vi_uploader :: string
  vi_description :: string

record processing_info =
  pi_model_size :: string
  pi_chunk_duration :: int
  pi_overlap_duration :: int
  pi_total_chunks :: nat
  pi_processed_at :: string

text \<open>
  What a file holds: text, or one of the two JSON documents the program dumps. The
  documents are kept as structured values: the resume snapshot with its segments,
  processed duration, total duration and time of interruption; the result document.
\<close>

datatype document =
    Text string
  | ResumeJson "transcript list" int int string
  | ResultJson video_info "transcript list" processing_info

type_synonym file_system = "string \<rightharpoonup> document"

text \<open>The object's attributes; \<open>files\<close> is the file system the process writes to.\<close>

record scribe =
  model_size :: string
  chunk_duration :: int
  overlap_duration :: int
  whisper_model :: "string option"
  is_running :: bool
  is_interrupted :: bool
  total_duration :: int
  processed_duration :: int
  transcripts :: "transcript list"
  output_file :: "string option"
  progress_bar :: "(int \<times> nat) option"
  files :: file_system

text \<open>
  How a block of statements ends: normally, by \<^verbatim>\<open>break\<close>, by an exception, or by
  \<^verbatim>\<open>sys.exit\<close> with a status.
\<close>

datatype flow =
    Normal scribe
  | Break scribe
  | Raise py_error scribe
  | SysExit int scribe

fun flow_state :: "flow \<Rightarrow> scribe" where
  "flow_state (Normal s) = s"
| "flow_state (Break s) = s"
| "flow_state (Raise e s) = s"
| "flow_state (SysExit n s) = s"

subsection \<open>External collaborators\<close>

text \<open>The fields of the metadata extractor's answer that the program reads.\<close>

record yt_format =
  acodec :: "string option"
  url :: "string option"

record yt_info =
  info_title :: "string option"
  info_duration :: "int option"
  info_formats :: "yt_format list"
  info_uploader :: "string option"
  info_description :: "string option"

text \<open>
  The media tool: starting it may raise; otherwise it ends with a return code and the
  bytes it wrote to its standard output.
\<close>

datatype ffmpeg_result = PopenError | Finished int string

text \<open>
  The speech model: it may raise; otherwise it answers with a dictionary that may hold
  a text and a language.
\<close>

datatype whisper_result = WhisperError | WhisperResult "string option" "string option"

text \<open>
  The world outside the program. \<open>signal_at c\<close> says that a termination signal is
  delivered while the main loop holds the chunk with chunk number \<open>c\<close>; \<open>now_iso\<close>
  and \<open>now_stamp\<close> are the readings of the clock in its two formats.
\<close>

record env =
  imports_ok :: bool
  load_model :: "string \<Rightarrow> bool"
  ydl_extract_info :: "string \<Rightarrow> yt_info option"
  ffmpeg :: "int \<Rightarrow> string \<Rightarrow> int \<Rightarrow> ffmpeg_result"
  whisper_transcribe :: "string \<Rightarrow> whisper_result"
  signal_at :: "int \<Rightarrow> bool"
  now_iso :: string
  now_stamp :: string

subsection \<open>The operations of \<^verbatim>\<open>ChunkedStreamScribe\<close>\<close>

text \<open>\<^verbatim>\<open>__init__\<close>: the attributes are set from the arguments as they are; \<open>fs\<close> is the
  file system the process starts with.\<close>

definition init :: "file_system \<Rightarrow> string \<Rightarrow> int \<Rightarrow> int \<Rightarrow> scribe" where
  "init fs model_size' chunk_duration' overlap_duration' =
     \<lparr>model_size = model_size',
      chunk_duration = chunk_duration',
      overlap_duration = overlap_duration',
      whisper_model = None,
      is_running = False,
      is_interrupted = False,
      total_duration = 0,
      processed_duration = 0,
      transcripts = [],
      output_file = None,
      progress_bar = None,
      files = fs\<rparr>"

text \<open>\<^verbatim>\<open>f"{self.output_file}"\<close>: an unset attribute is formatted as \<^verbatim>\<open>None\<close>.\<close>

definition output_file_str :: "scribe \<Rightarrow> string" where
  "output_file_str s = (case output_file s of None \<Rightarrow> ''None'' | Some f \<Rightarrow> f)"

definition save_partial_results :: "string \<Rightarrow> scribe \<Rightarrow> scribe" where
  "save_partial_results now s =
     (if transcripts s = [] then s
      else
        let resume_file = output_file_str s @ ''.resume.json'';
            resume_data = ResumeJson (transcripts s) (processed_duration s) (total_duration s) now
        in s\<lparr>files := (files s)(resume_file \<mapsto> resume_data)\<rparr>)"

definition signal_handler :: "string \<Rightarrow> scribe \<Rightarrow> flow" where
  "signal_handler now s =
     (let s1 = s\<lparr>is_interrupted := True\<rparr>;
          s2 = s1\<lparr>is_running := False\<rparr>;
          s3 = save_partial_results now s2
      in SysExit 0 s3)"

definition load_whisper_model :: "env \<Rightarrow> scribe \<Rightarrow> py_error + scribe" where
  "load_whisper_model e s =
     (if load_model e (model_size s) then Inr (s\<lparr>whisper_model := Some (model_size s)\<rparr>)
      else Inl ExternalError)"

text \<open>The first format that has an audio codec gives the audio URL.\<close>

fun first_audio_url :: "yt_format list \<Rightarrow> string option" where
  "first_audio_url [] = None"
| "first_audio_url (format_info # rest) =
     (if acodec format_info \<noteq> Some ''none'' then url format_info else first_audio_url rest)"

definition extract_youtube_info :: "env \<Rightarrow> string \<Rightarrow> scribe \<Rightarrow> py_error + (video_info \<times> scribe)" where
  "extract_youtube_info e url' s =
     (case ydl_extract_info e url' of
        None \<Rightarrow> Inl ExternalError
      | Some info \<Rightarrow>
          let audio_url = first_audio_url (info_formats info);
              duration' = (case info_duration info of None \<Rightarrow> 0 | Some d \<Rightarrow> d);
              s1 = s\<lparr>total_duration := duration'\<rparr>
          in Inr (\<lparr>vi_title = (case info_title info of None \<Rightarrow> ''Unknown'' | Some t \<Rightarrow> t),
                   vi_duration = duration',
                   vi_audio_url = audio_url,
                   vi_uploader = (case info_uploader info of None \<Rightarrow> ''Unknown'' | Some u \<Rightarrow> u),
                   vi_description =
                     (case info_description info of
                        None \<Rightarrow> []
                      | Some d \<Rightarrow> if d = [] then [] else take 200 d @ ''...'')\<rparr>,
                  s1))"

text \<open>
  \<^verbatim>\<open>create_audio_chunks\<close> is a generator, driven by the \<^verbatim>\<open>for\<close> loop of its caller:
  at each \<^verbatim>\<open>yield\<close> the loop body runs on the chunk and the generator resumes after it,
  unless the body leaves the loop. The body is the parameter \<open>body\<close>. Each loop
  iteration of the generator uses one unit of \<open>fuel\<close>; \<open>None\<close> means that the fuel
  ran out. The result holds the chunks yielded, in order, and how the loop ended.
\<close>

fun chunk_loop ::
  "nat \<Rightarrow> (int \<Rightarrow> string \<Rightarrow> int \<Rightarrow> ffmpeg_result) \<Rightarrow> (chunk \<Rightarrow> scribe \<Rightarrow> flow) \<Rightarrow> string
   \<Rightarrow> int \<Rightarrow> int \<Rightarrow> int \<Rightarrow> int \<Rightarrow> scribe \<Rightarrow> (chunk list \<times> flow) option" where
  "chunk_loop 0 ff body audio_url chunk_size step_size current_position chunk_no s = None"
| "chunk_loop (Suc fuel) ff body audio_url chunk_size step_size current_position chunk_no s =
     (if current_position < total_duration s \<and> is_running s then
        if is_interrupted s then Some ([], Normal s)
        else
          let actual_duration = min chunk_size (total_duration s - current_position) in
          case ff current_position audio_url actual_duration of
            PopenError \<Rightarrow>
              chunk_loop fuel ff body audio_url chunk_size step_size
                (current_position + step_size) chunk_no s
          | Finished returncode audio_data \<Rightarrow>
              if returncode \<noteq> 0 then
                chunk_loop fuel ff body audio_url chunk_size step_size
                  (current_position + step_size) chunk_no s
              else if length audio_data > 0 then
                let c = \<lparr>start_time = current_position, duration = actual_duration,
                         chunk_number = chunk_no, data = audio_data\<rparr>
                in case body c s of
                     Normal s' \<Rightarrow>
                       map_option (\<lambda>(cs, r). (c # cs, r))
                         (chunk_loop fuel ff body audio_url chunk_size step_size
                            (current_position + step_size) (chunk_no + 1)
                            (s'\<lparr>processed_duration := current_position + step_size\<rparr>))
                   | Break s' \<Rightarrow> Some ([c], Normal s')
                   | Raise err s' \<Rightarrow> Some ([c], Raise err s')
                   | SysExit n s' \<Rightarrow> Some ([c], SysExit n s')
              else
                chunk_loop fuel ff body audio_url chunk_size step_size
                  (current_position + step_size) (chunk_no + 1)
                  (s\<lparr>processed_duration := current_position + step_size\<rparr>)
      else Some ([], Normal s))"

declare chunk_loop.simps(2) [simp del]

definition create_audio_chunks ::
  "nat \<Rightarrow> (int \<Rightarrow> string \<Rightarrow> int \<Rightarrow> ffmpeg_result) \<Rightarrow> (chunk \<Rightarrow> scribe \<Rightarrow> flow) \<Rightarrow> string
   \<Rightarrow> scribe \<Rightarrow> (chunk list \<times> flow) option" where
  "create_audio_chunks fuel ff body audio_url s =
     (let chunk_size = chunk_duration s;
          overlap_size = overlap_duration s;
          step_size = chunk_size - overlap_size
      in chunk_loop fuel ff body audio_url chunk_size step_size 0 0 s)"

text \<open>The body of a loop that only takes the chunks, as \<^verbatim>\<open>list(...)\<close> does.\<close>

definition take_chunk :: "chunk \<Rightarrow> scribe \<Rightarrow> flow" where
  "take_chunk c s = Normal s"

text \<open>\<^verbatim>\<open>transcribe_audio_chunk\<close>: any exception inside it is caught and gives \<^verbatim>\<open>None\<close>.\<close>

definition transcribe_audio_chunk :: "(string \<Rightarrow> whisper_result) \<Rightarrow> string \<Rightarrow> chunk \<Rightarrow> transcript option" where
  "transcribe_audio_chunk whisper now chunk_data =
     (case whisper (data chunk_data) of
        WhisperError \<Rightarrow> None
      | WhisperResult result_text result_language \<Rightarrow>
          let transcript = strip (case result_text of None \<Rightarrow> [] | Some t \<Rightarrow> t) in
          if transcript = [] then None
          else Some \<lparr>start_time = start_time chunk_data,
                     duration = duration chunk_data,
                     chunk_number = chunk_number chunk_data,
                     text = transcript,
                     end_time = start_time chunk_data + duration chunk_data,
                     language = (case result_language of None \<Rightarrow> ''unknown'' | Some l \<Rightarrow> l),
                     timestamp = now\<rparr>)"

text \<open>Opening a file in mode \<^verbatim>\<open>a\<close> and writing to it.\<close>

definition append_text :: "string \<Rightarrow> string \<Rightarrow> file_system \<Rightarrow> file_system" where
  "append_text name line fs =
     fs(name \<mapsto> Text ((case fs name of Some (Text old) \<Rightarrow> old | _ \<Rightarrow> []) @ line))"

definition save_transcript :: "transcript \<Rightarrow> string \<Rightarrow> scribe \<Rightarrow> scribe" where
  "save_transcript transcript format_type s =
     (case output_file s of
        None \<Rightarrow> s
      | Some out \<Rightarrow>
          if out = [] then s
          else
            let s1 =
              (if format_type = ''live'' then
                 let start_time' = format_time (start_time transcript);
                     end_time' = format_time (end_time transcript)
                 in s\<lparr>files := append_text out
                      (''['' @ start_time' @ '' - '' @ end_time' @ ''] '' @ text transcript
                       @ ''\<newline>'') (files s)\<rparr>
               else s)
            in s1\<lparr>transcripts := transcripts s1 @ [transcript]\<rparr>)"

text \<open>The loop that writes the SRT records: \<open>i\<close> is the counter of \<^verbatim>\<open>enumerate\<close>,
  \<open>f\<close> what has been written so far.\<close>

fun write_srt :: "int \<Rightarrow> transcript list \<Rightarrow> string \<Rightarrow> string" where
  "write_srt i [] f = f"
| "write_srt i (transcript # rest) f =
     (let start_time' = seconds_to_srt_time (of_int (start_time transcript));
          end_time' = seconds_to_srt_time (of_int (end_time transcript));
          f1 = f @ str_int i @ ''\<newline>'';
          f2 = f1 @ start_time' @ '' --> '' @ end_time' @ ''\<newline>'';
          f3 = f2 @ text transcript @ ''\<newline>\<newline>''
      in write_srt (i + 1) rest f3)"

definition save_final_results :: "video_info \<Rightarrow> string \<Rightarrow> scribe \<Rightarrow> py_error + scribe" where
  "save_final_results info now s =
     (if transcripts s = [] then Inr s
      else case output_file s of
        None \<Rightarrow> Inl AttributeError
      | Some out \<Rightarrow>
          let base_name = replace_str ''.txt'' [] out;
              json_file = base_name @ ''.json'';
              json_data = ResultJson info (transcripts s)
                \<lparr>pi_model_size = model_size s,
                 pi_chunk_duration = chunk_duration s,
                 pi_overlap_duration = overlap_duration s,
                 pi_total_chunks = length (transcripts s),
                 pi_processed_at = now\<rparr>;
              s1 = s\<lparr>files := (files s)(json_file \<mapsto> json_data)\<rparr>;
              srt_file = base_name @ ''.srt''
          in Inr (s1\<lparr>files := (files s1)(srt_file \<mapsto> Text (write_srt 1 (transcripts s1) []))\<rparr>))"

text \<open>The body of the \<^verbatim>\<open>for\<close> loop of \<^verbatim>\<open>run\<close>. A termination signal delivered while
  the loop holds the chunk runs the handler first.\<close>

definition run_body :: "env \<Rightarrow> chunk \<Rightarrow> scribe \<Rightarrow> flow" where
  "run_body e chunk_data s =
     (if signal_at e (chunk_number chunk_data) then signal_handler (now_iso e) s
      else if \<not> is_running s \<or> is_interrupted s then Break s
      else
        let transcript = transcribe_audio_chunk (whisper_transcribe e) (now_iso e) chunk_data;
            s1 = (case transcript of Some t \<Rightarrow> save_transcript t ''live'' s | None \<Rightarrow> s)
        in Normal (s1\<lparr>progress_bar := map_option (\<lambda>(total, n). (total, n + 1)) (progress_bar s1)\<rparr>))"

definition safe_title :: "string \<Rightarrow> string" where
  "safe_title title =
     take 50 (strip (filter (\<lambda>c. isalnum c \<or> c \<in> {CHR '' '', CHR ''-'', CHR ''_''}) title))"

text \<open>The \<^verbatim>\<open>try\<close> block of \<^verbatim>\<open>run\<close>.\<close>

definition run_try :: "nat \<Rightarrow> env \<Rightarrow> string \<Rightarrow> string \<Rightarrow> scribe \<Rightarrow> flow option" where
  "run_try fuel e youtube_url output_dir s =
     (case load_whisper_model e s of
        Inl err \<Rightarrow> Some (Raise err s)
      | Inr s1 \<Rightarrow>
     (case extract_youtube_info e youtube_url s1 of
        Inl err \<Rightarrow> Some (Raise err s1)
      | Inr (info, s2) \<Rightarrow>
     (case vi_audio_url info of
        None \<Rightarrow> Some (Normal s2)
      | Some audio_url \<Rightarrow>
          if audio_url = [] then Some (Normal s2)
          else
            let s3 = s2\<lparr>output_file :=
                     Some (path_join output_dir
                       (safe_title (vi_title info) @ ''_'' @ now_stamp e @ ''.txt''))\<rparr>
            in
            (case py_truediv (total_duration s3) (chunk_duration s3 - overlap_duration s3) of
               Inl err \<Rightarrow> Some (Raise err s3)
             | Inr q \<Rightarrow>
                 let total_chunks = py_int q + 1;
                     s4 = s3\<lparr>progress_bar := Some (total_chunks, 0)\<rparr>;
                     s5 = s4\<lparr>is_running := True\<rparr>
                 in
                 (case create_audio_chunks fuel (ffmpeg e) (run_body e) audio_url s5 of
                    None \<Rightarrow> None
                  | Some (cs, Normal s6) \<Rightarrow>
                      if \<not> is_interrupted s6 then
                        (case save_final_results info (now_iso e) s6 of
                           Inl err \<Rightarrow> Some (Raise err s6)
                         | Inr s7 \<Rightarrow> Some (Normal s7))
                      else Some (Normal s6)
                  | Some (cs, r) \<Rightarrow> Some r)))))"

text \<open>\<^verbatim>\<open>run\<close>: every exception of the \<^verbatim>\<open>try\<close> block is caught and reported; the
  \<^verbatim>\<open>finally\<close> clause runs however the block ends.\<close>

definition run :: "nat \<Rightarrow> env \<Rightarrow> string \<Rightarrow> string \<Rightarrow> scribe \<Rightarrow> flow option" where
  "run fuel e youtube_url output_dir s =
     (case run_try fuel e youtube_url output_dir s of
        None \<Rightarrow> None
      | Some (Raise err s') \<Rightarrow> Some (Normal (s'\<lparr>is_running := False\<rparr>))
      | Some (SysExit n s') \<Rightarrow> Some (SysExit n (s'\<lparr>is_running := False\<rparr>))
      | Some r \<Rightarrow> Some (Normal ((flow_state r)\<lparr>is_running := False\<rparr>)))"

subsection \<open>The process\<close>

record args =
  arg_url :: string
  arg_model :: string
  arg_chunk_duration :: int
  arg_overlap :: int
  arg_output_dir :: string

text \<open>
  The process from the import of the module to its exit, for a parsed command line.
  The result is the exit status and the file system left behind. A missing package
  ends the process with status 1 before anything else happens; an exception that
  leaves \<^verbatim>\<open>main\<close> would end it with status 1 as well.
\<close>

definition main :: "nat \<Rightarrow> env \<Rightarrow> file_system \<Rightarrow> args \<Rightarrow> (int \<times> file_system) option" where
  "main fuel e fs a =
     (if \<not> imports_ok e then Some (1, fs)
      else
        let scribe = init fs (arg_model a) (arg_chunk_duration a) (arg_overlap a) in
        case run fuel e (arg_url a) (arg_output_dir a) scribe of
          None \<Rightarrow> None
        | Some (SysExit n s) \<Rightarrow> Some (n, files s)
        | Some (Raise err s) \<Rightarrow> Some (1, files s)
        | Some r \<Rightarrow> Some (0, files (flow_state r)))"

subsection \<open>The chunk windows of the specification, and sample inputs\<close>

text \<open>
  The window of chunk \<open>i\<close> in the words of the specification: for total duration \<open>D\<close>,
  chunk length \<open>L\<close> and overlap \<open>O'\<close> it is \<open>[i*(L-O'), min(i*(L-O')+L, D))\<close>, given
  here as its two ends.
\<close>

definition spec_window :: "int \<Rightarrow> int \<Rightarrow> int \<Rightarrow> nat \<Rightarrow> int \<times> int" where
  "spec_window D L O' i = (int i * (L - O'), min (int i * (L - O') + L) D)"

text \<open>
  Sample inputs for the concrete instances below: an object as it is when the main loop
  starts on a stream of \<open>D\<close> seconds, a media tool that always delivers audio, and one
  that fails on the window at offset 0.
\<close>

definition running_scribe :: "int \<Rightarrow> int \<Rightarrow> int \<Rightarrow> scribe" where
  "running_scribe D L O' =
     (init Map.empty ''base'' L O')\<lparr>total_duration := D, is_running := True\<rparr>"

definition ffmpeg_ok :: "int \<Rightarrow> string \<Rightarrow> int \<Rightarrow> ffmpeg_result" where
  "ffmpeg_ok p u d = Finished 0 ''pcm''"

definition ffmpeg_first_fails :: "int \<Rightarrow> string \<Rightarrow> int \<Rightarrow> ffmpeg_result" where
  "ffmpeg_first_fails p u d = (if p = 0 then Finished 1 [] else Finished 0 ''pcm'')"


text \<open>More sample inputs: a recorded segment, a chunk, a speech model that hears
  nothing and one that hears a word.\<close>

definition demo_transcript :: transcript where
  "demo_transcript = \<lparr>start_time = 0, duration = 30, chunk_number = 0, text = ''hello'',
     end_time = 30, language = ''en'', timestamp = ''2024-01-01T00:00:00''\<rparr>"




definition whisper_hello :: "string \<Rightarrow> whisper_result" where
  "whisper_hello d = WhisperResult (Some '' hello '') (Some ''en'')"

text \<open>
  A recorded segment is well formed for total duration \<open>D\<close> and chunk length \<open>L\<close>
  when it ends at its start plus its duration, its duration is the chunk length cut at
  the end of the stream, and it starts inside the stream.
\<close>

definition good_segment :: "int \<Rightarrow> int \<Rightarrow> transcript \<Rightarrow> bool" where
  "good_segment D L t \<longleftrightarrow>
     end_time t = start_time t + duration t \<and> duration t = min L (D - start_time t) \<and>
     start_time t < D"

text \<open>The start and end times of the recorded segments, and the exit status alone.\<close>

definition segment_ranges :: "flow \<Rightarrow> (int \<times> int) list" where
  "segment_ranges r = map (\<lambda>t. (start_time t, end_time t)) (transcripts (flow_state r))"

definition exit_status :: "(int \<times> file_system) option \<Rightarrow> int option" where
  "exit_status p = map_option fst p"

text \<open>
  A sample world: every package is present, the video lasts 52 seconds and has an audio
  stream, every extraction delivers audio, the speech model hears a word in every chunk
  and no signal arrives. The second world differs in that the video cannot be reached.
\<close>

definition demo_env :: env where
  "demo_env =
     \<lparr>imports_ok = True,
      load_model = (\<lambda>m. True),
      ydl_extract_info = (\<lambda>u. Some
        \<lparr>info_title = Some ''Demo talk'', info_duration = Some 52,
         info_formats = [\<lparr>acodec = Some ''none'', url = Some ''http://v''\<rparr>,
                         \<lparr>acodec = Some ''opus'', url = Some ''http://a''\<rparr>],
         info_uploader = None, info_description = None\<rparr>),
      ffmpeg = ffmpeg_ok,
      whisper_transcribe = whisper_hello,
      signal_at = (\<lambda>n. False),
      now_iso = ''2024-01-01T00:00:00'',
      now_stamp = ''20240101_000000''\<rparr>"

definition unreachable_env :: env where
  "unreachable_env = demo_env\<lparr>ydl_extract_info := (\<lambda>u. None)\<rparr>"

definition demo_args :: args where
  "demo_args = \<lparr>arg_url = ''https://video'', arg_model = ''base'', arg_chunk_duration = 30,
     arg_overlap = 5, arg_output_dir = ''transcripts''\<rparr>"

section \<open>Properties\<close>


subsection \<open>SRT timestamps\<close>









lemma str_nat_length: "0 < length (str_nat n)"
  by (subst str_nat.simps) simp








subsection \<open>The chunk generator\<close>

lemma chunk_loop_done:
  "\<not> (pos < total_duration s \<and> is_running s) \<or> is_interrupted s \<Longrightarrow>
   chunk_loop (Suc fuel) ff body au L step pos num s = Some ([], Normal s)"
  by (auto simp add: chunk_loop.simps(2))

lemma chunk_loop_active:
  "pos < total_duration s \<Longrightarrow> is_running s \<Longrightarrow> \<not> is_interrupted s \<Longrightarrow>
   chunk_loop (Suc fuel) ff body au L step pos num s =
     (case ff pos au (min L (total_duration s - pos)) of
        PopenError \<Rightarrow> chunk_loop fuel ff body au L step (pos + step) num s
      | Finished returncode audio_data \<Rightarrow>
          if returncode \<noteq> 0 then chunk_loop fuel ff body au L step (pos + step) num s
          else if audio_data \<noteq> [] then
            (case body \<lparr>start_time = pos, duration = min L (total_duration s - pos),
                        chunk_number = num, data = audio_data\<rparr> s of
               Normal s' \<Rightarrow>
                 map_option (\<lambda>(cs, r). (\<lparr>start_time = pos, duration = min L (total_duration s - pos),
                        chunk_number = num, data = audio_data\<rparr> # cs, r))
                   (chunk_loop fuel ff body au L step (pos + step) (num + 1)
                      (s'\<lparr>processed_duration := pos + step\<rparr>))
             | Break s' \<Rightarrow> Some ([\<lparr>start_time = pos, duration = min L (total_duration s - pos),
                        chunk_number = num, data = audio_data\<rparr>], Normal s')
             | Raise err s' \<Rightarrow> Some ([\<lparr>start_time = pos, duration = min L (total_duration s - pos),
                        chunk_number = num, data = audio_data\<rparr>], Raise err s')
             | SysExit n s' \<Rightarrow> Some ([\<lparr>start_time = pos, duration = min L (total_duration s - pos),
                        chunk_number = num, data = audio_data\<rparr>], SysExit n s'))
          else chunk_loop fuel ff body au L step (pos + step) (num + 1)
                 (s\<lparr>processed_duration := pos + step\<rparr>))"
  by (simp add: chunk_loop.simps(2) Let_def split: ffmpeg_result.split)

lemma chunk_loop_terminates:
  assumes step: "0 < step"
    and kt: "\<And>c s. total_duration (flow_state (body c s)) = total_duration s"
  shows "\<exists>fuel. chunk_loop fuel ff body au L step pos num s \<noteq> None"
proof (induction "nat (total_duration s - pos)" arbitrary: pos num s rule: less_induct)
  case less
  show ?case
  proof (cases "pos < total_duration s \<and> is_running s \<and> \<not> is_interrupted s")
    case False
    then have "chunk_loop (Suc 0) ff body au L step pos num s = Some ([], Normal s)"
      by (intro chunk_loop_done) auto
    then show ?thesis by (metis option.distinct(1))
  next
    case True
    then have act: "pos < total_duration s" "is_running s" "\<not> is_interrupted s" by auto
    have rec: "\<exists>fuel. chunk_loop fuel ff body au L step (pos + step) num' s' \<noteq> None"
      if "total_duration s' = total_duration s" for num' s'
    proof -
      have "nat (total_duration s' - (pos + step)) < nat (total_duration s - pos)"
        using that step act(1) by linarith
      then show ?thesis using less.hyps[of s' "pos + step" num'] by blast
    qed
    show ?thesis
    proof (cases "ff pos au (min L (total_duration s - pos))")
      case PopenError
      from rec[of s num] obtain fuel where "chunk_loop fuel ff body au L step (pos + step) num s \<noteq> None"
        by auto
      then have "chunk_loop (Suc fuel) ff body au L step pos num s \<noteq> None"
        using PopenError by (auto simp add: chunk_loop_active[OF act])
      then show ?thesis by blast
    next
      case (Finished rc a)
      show ?thesis
      proof (cases "rc \<noteq> 0")
        case True
        from rec[of s num] obtain fuel where "chunk_loop fuel ff body au L step (pos + step) num s \<noteq> None"
          by auto
        then have "chunk_loop (Suc fuel) ff body au L step pos num s \<noteq> None"
          using Finished True by (auto simp add: chunk_loop_active[OF act])
        then show ?thesis by blast
      next
        case rc0: False
        show ?thesis
        proof (cases "a = []")
          case True
          from rec[of "s\<lparr>processed_duration := pos + step\<rparr>" "num + 1"]
          obtain fuel where "chunk_loop fuel ff body au L step (pos + step) (num + 1)
              (s\<lparr>processed_duration := pos + step\<rparr>) \<noteq> None"
            by auto
          then have "chunk_loop (Suc fuel) ff body au L step pos num s \<noteq> None"
            using Finished rc0 True by (auto simp add: chunk_loop_active[OF act])
          then show ?thesis by blast
        next
          case ne: False
          let ?c = "\<lparr>start_time = pos, duration = min L (total_duration s - pos),
                        chunk_number = num, data = a\<rparr>"
          show ?thesis
          proof (cases "body ?c s")
            case (Normal s')
            have "total_duration s' = total_duration s" using kt[of ?c s] Normal by simp
            with rec[of "s'\<lparr>processed_duration := pos + step\<rparr>" "num + 1"]
            obtain fuel where "chunk_loop fuel ff body au L step (pos + step) (num + 1)
              (s'\<lparr>processed_duration := pos + step\<rparr>) \<noteq> None"
              by auto
            then have "chunk_loop (Suc fuel) ff body au L step pos num s \<noteq> None"
              using Finished rc0 ne Normal by (auto simp add: chunk_loop_active[OF act])
            then show ?thesis by blast
          next
            case (Break s')
            have "chunk_loop (Suc 0) ff body au L step pos num s \<noteq> None"
              using Finished rc0 ne Break by (auto simp add: chunk_loop_active[OF act])
            then show ?thesis by blast
          next
            case (Raise e s')
            have "chunk_loop (Suc 0) ff body au L step pos num s \<noteq> None"
              using Finished rc0 ne Raise by (auto simp add: chunk_loop_active[OF act])
            then show ?thesis by blast
          next
            case (SysExit n s')
            have "chunk_loop (Suc 0) ff body au L step pos num s \<noteq> None"
              using Finished rc0 ne SysExit by (auto simp add: chunk_loop_active[OF act])
            then show ?thesis by blast
          qed
        qed
      qed
    qed
  qed
qed


lemma chunk_loop_mono_Suc:
  "chunk_loop fuel ff body au L step pos num s = Some r \<Longrightarrow>
   chunk_loop (Suc fuel) ff body au L step pos num s = Some r"
proof (induction fuel arbitrary: pos num s r)
  case 0
  then show ?case by simp
next
  case (Suc fuel)
  show ?case
  proof (cases "pos < total_duration s \<and> is_running s \<and> \<not> is_interrupted s")
    case False
    then have d: "\<not> (pos < total_duration s \<and> is_running s) \<or> is_interrupted s" by auto
    show ?thesis using Suc.prems by (simp add: chunk_loop_done[OF d])
  next
    case True
    then have act: "pos < total_duration s" "is_running s" "\<not> is_interrupted s" by auto
    show ?thesis
      using Suc.prems Suc.IH
      unfolding chunk_loop_active[OF act, of "Suc fuel"] chunk_loop_active[OF act, of fuel]
      by (auto split: ffmpeg_result.splits flow.splits if_splits)
  qed
qed

lemma chunk_loop_mono:
  "chunk_loop fuel ff body au L step pos num s = Some r \<Longrightarrow>
   chunk_loop (fuel + k) ff body au L step pos num s = Some r"
  by (induction k) (simp_all add: chunk_loop_mono_Suc)

lemma chunk_loop_diverges:
  assumes "step \<le> 0"
  shows "pos \<le> 0 \<Longrightarrow> 0 < total_duration s \<Longrightarrow> is_running s \<Longrightarrow> \<not> is_interrupted s \<Longrightarrow>
         chunk_loop fuel ff take_chunk au L step pos num s = None"
proof (induction fuel arbitrary: pos num s)
  case 0
  show ?case by simp
next
  case (Suc fuel)
  have act: "pos < total_duration s" "is_running s" "\<not> is_interrupted s"
    using Suc.prems by auto
  have p: "pos + step \<le> 0" using Suc.prems(1) assms by simp
  have r1: "chunk_loop fuel ff take_chunk au L step (pos + step) n s = None" for n
    using Suc.IH[OF p] Suc.prems by simp
  have r2: "chunk_loop fuel ff take_chunk au L step (pos + step) n
              (s\<lparr>processed_duration := q\<rparr>) = None" for n q
    using Suc.IH[OF p, of "s\<lparr>processed_duration := q\<rparr>"] Suc.prems by simp
  show ?case
    unfolding chunk_loop_active[OF act]
    by (simp add: r1 r2 take_chunk_def split: ffmpeg_result.split)
qed

lemma chunk_loop_yields:
  assumes kt: "\<And>c s. total_duration (flow_state (body c s)) = total_duration s"
  shows "chunk_loop fuel ff body au L step pos num s = Some (cs, r) \<Longrightarrow> c \<in> set cs \<Longrightarrow>
         duration c = min L (total_duration s - start_time c) \<and> start_time c < total_duration s"
proof (induction fuel arbitrary: pos num s cs r)
  case 0
  then show ?case by simp
next
  case (Suc fuel)
  show ?case
  proof (cases "pos < total_duration s \<and> is_running s \<and> \<not> is_interrupted s")
    case False
    then have d: "\<not> (pos < total_duration s \<and> is_running s) \<or> is_interrupted s" by auto
    show ?thesis using Suc.prems by (auto simp add: chunk_loop_done[OF d])
  next
    case True
    then have act: "pos < total_duration s" "is_running s" "\<not> is_interrupted s" by auto
    note run = Suc.prems(1)[unfolded chunk_loop_active[OF act]]
    show ?thesis
    proof (cases "ff pos au (min L (total_duration s - pos))")
      case PopenError
      then show ?thesis using run Suc.IH[of "pos + step" num s cs r] Suc.prems(2) by auto
    next
      case (Finished rc a)
      show ?thesis
      proof (cases "rc \<noteq> 0")
        case True
        then show ?thesis
          using run Finished Suc.IH[of "pos + step" num s cs r] Suc.prems(2) by auto
      next
        case rc0: False
        show ?thesis
        proof (cases "a = []")
          case True
          then show ?thesis
            using run Finished rc0 Suc.prems(2)
              Suc.IH[of "pos + step" "num + 1" "s\<lparr>processed_duration := pos + step\<rparr>" cs r]
            by auto
        next
          case ne: False
          let ?c = "\<lparr>start_time = pos, duration = min L (total_duration s - pos),
                        chunk_number = num, data = a\<rparr>"
          show ?thesis
          proof (cases "body ?c s")
            case (Normal s')
            have td: "total_duration s' = total_duration s" using kt[of ?c s] Normal by simp
            from run Finished rc0 ne Normal obtain cs' where
              rec: "chunk_loop fuel ff body au L step (pos + step) (num + 1)
                      (s'\<lparr>processed_duration := pos + step\<rparr>) = Some (cs', r)"
              and cs: "cs = ?c # cs'"
              by auto
            show ?thesis
            proof (cases "c = ?c")
              case True
              then show ?thesis using act(1) by simp
            next
              case False
              then have "c \<in> set cs'" using Suc.prems(2) cs by simp
              from Suc.IH[OF rec this] show ?thesis using td by simp
            qed
          next
            case (Break s')
            then show ?thesis using run Finished rc0 ne Suc.prems(2) act(1) by auto
          next
            case (Raise e s')
            then show ?thesis using run Finished rc0 ne Suc.prems(2) act(1) by auto
          next
            case (SysExit n s')
            then show ?thesis using run Finished rc0 ne Suc.prems(2) act(1) by auto
          qed
        qed
      qed
    qed
  qed
qed

lemma save_partial_results_fields:
  "total_duration (save_partial_results now s) = total_duration s"
  "transcripts (save_partial_results now s) = transcripts s"
  "is_running (save_partial_results now s) = is_running s"
  "is_interrupted (save_partial_results now s) = is_interrupted s"
  "processed_duration (save_partial_results now s) = processed_duration s"
  "chunk_duration (save_partial_results now s) = chunk_duration s"
  "overlap_duration (save_partial_results now s) = overlap_duration s"
  "output_file (save_partial_results now s) = output_file s"
  by (simp_all add: save_partial_results_def Let_def)

lemma save_transcript_fields:
  "total_duration (save_transcript t fmt s) = total_duration s"
  "is_running (save_transcript t fmt s) = is_running s"
  "is_interrupted (save_transcript t fmt s) = is_interrupted s"
  "processed_duration (save_transcript t fmt s) = processed_duration s"
  "chunk_duration (save_transcript t fmt s) = chunk_duration s"
  "overlap_duration (save_transcript t fmt s) = overlap_duration s"
  "output_file (save_transcript t fmt s) = output_file s"
  by (simp_all add: save_transcript_def Let_def split: option.split)

lemma run_body_total_duration:
  "total_duration (flow_state (run_body e c s)) = total_duration s"
  by (simp add: run_body_def signal_handler_def Let_def save_partial_results_fields
      save_transcript_fields split: option.split)

lemma take_chunk_total_duration:
  "total_duration (flow_state (take_chunk c s)) = total_duration s"
  by (simp add: take_chunk_def)

lemma chunk_loop_all_windows:
  assumes step: "0 < step"
    and ok: "\<And>p d. \<exists>a. a \<noteq> [] \<and> ff p au d = Finished 0 a"
  shows "is_running s \<Longrightarrow> \<not> is_interrupted s \<Longrightarrow> pos = int k * step \<Longrightarrow>
     \<exists>fuel cs s'. chunk_loop fuel ff take_chunk au L step pos (int k) s = Some (cs, Normal s') \<and>
       (\<forall>i<length cs.
          start_time (cs ! i) = int (k + i) * step \<and>
          chunk_number (cs ! i) = int (k + i) \<and>
          duration (cs ! i) = min L (total_duration s - int (k + i) * step) \<and>
          int (k + i) * step < total_duration s) \<and>
       total_duration s \<le> int (k + length cs) * step"
proof (induction "nat (total_duration s - pos)" arbitrary: pos k s rule: less_induct)
  case less
  note run = less.prems(1) and ni = less.prems(2) and pos = less.prems(3)
  show ?case
  proof (cases "pos < total_duration s")
    case False
    then have d: "\<not> (pos < total_duration s \<and> is_running s) \<or> is_interrupted s" by auto
    have "chunk_loop (Suc 0) ff take_chunk au L step pos (int k) s = Some ([], Normal s)"
      by (rule chunk_loop_done[OF d])
    moreover have "total_duration s \<le> int (k + length ([]::chunk list)) * step"
      using False pos by simp
    ultimately show ?thesis by (metis length_0_conv less_nat_zero_code list.size(3))
  next
    case True
    from ok[of pos "min L (total_duration s - pos)"] obtain a where
      a: "a \<noteq> []" "ff pos au (min L (total_duration s - pos)) = Finished 0 a" by blast
    let ?c = "\<lparr>start_time = pos, duration = min L (total_duration s - pos),
                        chunk_number = int k, data = a\<rparr>"
    let ?s = "s\<lparr>processed_duration := pos + step\<rparr>"
    have m: "nat (total_duration ?s - (pos + step)) < nat (total_duration s - pos)"
      using step True by simp
    have p': "pos + step = int (Suc k) * step" using pos by (simp add: algebra_simps)
    from less.hyps[OF m _ _ p'] run ni obtain fuel cs s' where
      rec: "chunk_loop fuel ff take_chunk au L step (pos + step) (int (Suc k)) ?s = Some (cs, Normal s')"
      and win: "\<forall>i<length cs.
          start_time (cs ! i) = int (Suc k + i) * step \<and>
          chunk_number (cs ! i) = int (Suc k + i) \<and>
          duration (cs ! i) = min L (total_duration s - int (Suc k + i) * step) \<and>
          int (Suc k + i) * step < total_duration s"
      and fin: "total_duration s \<le> int (Suc k + length cs) * step"
      by auto
    have k1: "int k + 1 = int (Suc k)" by simp
    have unfold: "chunk_loop (Suc fuel) ff take_chunk au L step pos (int k) s = Some (?c # cs, Normal s')"
      unfolding chunk_loop_active[OF True run ni] using a rec
      by (simp add: take_chunk_def k1 del: of_nat_Suc)
    have win': "\<forall>i<length (?c # cs).
          start_time ((?c # cs) ! i) = int (k + i) * step \<and>
          chunk_number ((?c # cs) ! i) = int (k + i) \<and>
          duration ((?c # cs) ! i) = min L (total_duration s - int (k + i) * step) \<and>
          int (k + i) * step < total_duration s"
    proof (intro allI impI)
      fix i assume i: "i < length (?c # cs)"
      show "start_time ((?c # cs) ! i) = int (k + i) * step \<and>
          chunk_number ((?c # cs) ! i) = int (k + i) \<and>
          duration ((?c # cs) ! i) = min L (total_duration s - int (k + i) * step) \<and>
          int (k + i) * step < total_duration s"
      proof (cases i)
        case 0
        then show ?thesis using pos True by simp
      next
        case (Suc j)
        then have "j < length cs" using i by simp
        with win have "start_time (cs ! j) = int (Suc k + j) * step \<and>
          chunk_number (cs ! j) = int (Suc k + j) \<and>
          duration (cs ! j) = min L (total_duration s - int (Suc k + j) * step) \<and>
          int (Suc k + j) * step < total_duration s" by blast
        then show ?thesis using Suc by simp
      qed
    qed
    have fin': "total_duration s \<le> int (k + length (?c # cs)) * step"
      using fin by simp
    from unfold win' fin' show ?thesis by blast
  qed
qed

lemma running_scribe_simps:
  "total_duration (running_scribe D L O') = D"
  "chunk_duration (running_scribe D L O') = L"
  "overlap_duration (running_scribe D L O') = O'"
  "is_running (running_scribe D L O')"
  "\<not> is_interrupted (running_scribe D L O')"
  by (simp_all add: running_scribe_def init_def)

text \<open>
  \<^bold>\<open>C1\<close> (as amended). In a run with overlap below the chunk length, on an object that
  is running and not interrupted, when every extraction succeeds and delivers audio, the
  generator ends (for every sufficient amount of fuel, with the same result) and has
  yielded chunks numbered 0, 1, 2, ...: chunk \<open>i\<close> starts at \<open>i*(L-O)\<close> and ends at
  \<open>min(i*(L-O)+L, D)\<close>, consecutive start offsets differ by exactly \<open>L-O\<close>, every start
  offset is below \<open>D\<close>, and the loop stops at the first offset that reaches \<open>D\<close>.
\<close>

theorem create_audio_chunks_windows:
  assumes "overlap_duration s < chunk_duration s"
    and "is_running s" and "\<not> is_interrupted s"
    and "\<forall>p d. \<exists>a. a \<noteq> [] \<and> ff p au d = Finished 0 a"
  shows "\<exists>fuel0 cs s'.
     (\<forall>fuel\<ge>fuel0. create_audio_chunks fuel ff take_chunk au s = Some (cs, Normal s')) \<and>
     (\<forall>i<length cs.
        chunk_number (cs ! i) = int i \<and>
        start_time (cs ! i) =
          fst (spec_window (total_duration s) (chunk_duration s) (overlap_duration s) i) \<and>
        start_time (cs ! i) + duration (cs ! i) =
          snd (spec_window (total_duration s) (chunk_duration s) (overlap_duration s) i) \<and>
        start_time (cs ! i) < total_duration s) \<and>
     (\<forall>i. Suc i < length cs \<longrightarrow>
        start_time (cs ! Suc i) = start_time (cs ! i) + (chunk_duration s - overlap_duration s)) \<and>
     total_duration s \<le> int (length cs) * (chunk_duration s - overlap_duration s)"
proof -
  let ?L = "chunk_duration s" and ?st = "chunk_duration s - overlap_duration s"
  have step: "0 < ?st" using assms(1) by simp
  have ok: "\<And>p d. \<exists>a. a \<noteq> [] \<and> ff p au d = Finished 0 a" using assms(4) by blast
  from chunk_loop_all_windows[where step="?st" and ff=ff and au=au and s=s and k=0 and pos=0
      and L="?L", OF step ok assms(2,3)]
  obtain fuel0 cs s' where
    run: "chunk_loop fuel0 ff take_chunk au ?L ?st 0 0 s = Some (cs, Normal s')"
    and win: "\<forall>i<length cs.
          start_time (cs ! i) = int i * ?st \<and>
          chunk_number (cs ! i) = int i \<and>
          duration (cs ! i) = min ?L (total_duration s - int i * ?st) \<and>
          int i * ?st < total_duration s"
    and fin: "total_duration s \<le> int (length cs) * ?st"
    by auto
  have all: "\<forall>fuel\<ge>fuel0. create_audio_chunks fuel ff take_chunk au s = Some (cs, Normal s')"
  proof (intro allI impI)
    fix fuel :: nat assume "fuel0 \<le> fuel"
    then have "fuel = fuel0 + (fuel - fuel0)" by simp
    then show "create_audio_chunks fuel ff take_chunk au s = Some (cs, Normal s')"
      using chunk_loop_mono[OF run, of "fuel - fuel0"]
      by (simp add: create_audio_chunks_def Let_def)
  qed
  have w1: "\<forall>i<length cs.
        chunk_number (cs ! i) = int i \<and>
        start_time (cs ! i) = fst (spec_window (total_duration s) ?L (overlap_duration s) i) \<and>
        start_time (cs ! i) + duration (cs ! i) =
          snd (spec_window (total_duration s) ?L (overlap_duration s) i) \<and>
        start_time (cs ! i) < total_duration s"
    using win by (auto simp add: spec_window_def)
  have w2: "\<forall>i. Suc i < length cs \<longrightarrow> start_time (cs ! Suc i) = start_time (cs ! i) + ?st"
  proof (intro allI impI)
    fix i assume i: "Suc i < length cs"
    then have "start_time (cs ! Suc i) = int (Suc i) * ?st" "start_time (cs ! i) = int i * ?st"
      using win by auto
    then show "start_time (cs ! Suc i) = start_time (cs ! i) + ?st"
      by (simp add: algebra_simps)
  qed
  from all w1 w2 fin show ?thesis by blast
qed

theorem create_audio_chunks_windows_witness:
  "overlap_duration (running_scribe 52 30 5) < chunk_duration (running_scribe 52 30 5) \<and>
   is_running (running_scribe 52 30 5) \<and> \<not> is_interrupted (running_scribe 52 30 5) \<and>
   (\<forall>p d. \<exists>a. a \<noteq> [] \<and> ffmpeg_ok p ''u'' d = Finished 0 a) \<and>
   (\<exists>fuel0 cs s'.
     (\<forall>fuel\<ge>fuel0. create_audio_chunks fuel ffmpeg_ok take_chunk ''u'' (running_scribe 52 30 5)
        = Some (cs, Normal s')) \<and>
     (\<forall>i<length cs.
        chunk_number (cs ! i) = int i \<and>
        start_time (cs ! i) = fst (spec_window 52 30 5 i) \<and>
        start_time (cs ! i) + duration (cs ! i) = snd (spec_window 52 30 5 i) \<and>
        start_time (cs ! i) < 52) \<and>
     (\<forall>i. Suc i < length cs \<longrightarrow> start_time (cs ! Suc i) = start_time (cs ! i) + 25) \<and>
     52 \<le> int (length cs) * 25)"
proof -
  have h1: "overlap_duration (running_scribe 52 30 5) < chunk_duration (running_scribe 52 30 5)"
    by (simp add: running_scribe_simps)
  have h2: "is_running (running_scribe 52 30 5)" by (simp add: running_scribe_simps)
  have h3: "\<not> is_interrupted (running_scribe 52 30 5)" by (simp add: running_scribe_simps)
  have h4: "\<forall>p d. \<exists>a. a \<noteq> [] \<and> ffmpeg_ok p ''u'' d = Finished 0 a"
    by (simp add: ffmpeg_ok_def)
  show ?thesis
    using h1 h2 h3 h4
      create_audio_chunks_windows[where s="running_scribe 52 30 5" and ff=ffmpeg_ok and au="''u''",
        OF h1 h2 h3 h4]
    by (simp add: running_scribe_simps)
qed

text \<open>
  The claim as stated, for every run, fails when an extraction fails: with \<open>D = 50\<close>,
  \<open>L = 30\<close>, \<open>O = 5\<close> and a media tool that fails on the first window, the chunk
  numbered 0 covers \<open>[25, 50)\<close>, not the window \<open>[0, 30)\<close> of the specification.
\<close>

theorem create_audio_chunks_windows_counterexample:
  "map_option fst (create_audio_chunks 3 ffmpeg_first_fails take_chunk ''u'' (running_scribe 50 30 5))
     = Some [\<lparr>start_time = 25, duration = 25, chunk_number = 0, data = ''pcm''\<rparr>] \<and>
   spec_window 50 30 5 0 = (0, 30)"
  by code_simp

text \<open>
  \<^bold>\<open>C5.\<close> Every chunk the generator yields ends at or before the total duration: its
  start offset plus its actual duration is at most \<open>D\<close>. This holds for every loop body
  that leaves the total duration alone (as the body of \<^verbatim>\<open>run\<close> does), for every
  chunk length and overlap, and whatever the media tool answers.
\<close>

theorem chunk_end_within_total_duration:
  assumes "\<forall>c s'. total_duration (flow_state (body c s')) = total_duration s'"
    and "create_audio_chunks fuel ff body au s = Some (cs, r)"
    and "c \<in> set cs"
  shows "start_time c + duration c \<le> total_duration s"
proof -
  have "duration c = min (chunk_duration s) (total_duration s - start_time c)"
    using chunk_loop_yields[where body=body and fuel=fuel and ff=ff and au=au
        and L="chunk_duration s" and pos=0 and num=0 and s=s and cs=cs and r=r and c=c] assms
    by (simp add: create_audio_chunks_def Let_def)
  then show ?thesis by simp
qed

theorem chunk_end_within_total_duration_witness:
  "(\<forall>c s'. total_duration (flow_state (take_chunk c s')) = total_duration s') \<and>
   map_option fst (create_audio_chunks 4 ffmpeg_ok take_chunk ''u'' (running_scribe 52 30 5)) =
     Some [\<lparr>start_time = 0, duration = 30, chunk_number = 0, data = ''pcm''\<rparr>,
           \<lparr>start_time = 25, duration = 27, chunk_number = 1, data = ''pcm''\<rparr>,
           \<lparr>start_time = 50, duration = 2, chunk_number = 2, data = ''pcm''\<rparr>] \<and>
   start_time \<lparr>start_time = 50, duration = 2, chunk_number = 2, data = ''pcm''\<rparr>
     + duration \<lparr>start_time = 50, duration = 2, chunk_number = 2, data = ''pcm''\<rparr>
     \<le> total_duration (running_scribe 52 30 5)"
proof -
  let ?cs = "[\<lparr>start_time = 0, duration = 30, chunk_number = 0, data = ''pcm''\<rparr>,
           \<lparr>start_time = 25, duration = 27, chunk_number = 1, data = ''pcm''\<rparr>,
           \<lparr>start_time = 50, duration = 2, chunk_number = 2, data = ''pcm''\<rparr>]"
  have k: "\<forall>c s'. total_duration (flow_state (take_chunk c s')) = total_duration s'"
    by (simp add: take_chunk_def)
  have e: "map_option fst (create_audio_chunks 4 ffmpeg_ok take_chunk ''u'' (running_scribe 52 30 5))
     = Some ?cs"
    by code_simp
  then obtain r where
    r: "create_audio_chunks 4 ffmpeg_ok take_chunk ''u'' (running_scribe 52 30 5) = Some (?cs, r)"
    by auto
  have "\<lparr>start_time = 50, duration = 2, chunk_number = 2, data = ''pcm''\<rparr> \<in> set ?cs" by simp
  from chunk_end_within_total_duration[OF k r this] k e show ?thesis by blast
qed

text \<open>
  \<^bold>\<open>C9.\<close> The constructor stores the chunk length and the overlap as given, without
  a check. With \<open>O < L\<close> the generation loop ends for every total duration and every
  behaviour of the media tool. With \<open>L \<le> O\<close> it never ends on a running object with a
  positive total duration: whatever the fuel, the loop has not returned. The division
  that computes the number of chunks for the progress bar raises exactly when \<open>L = O\<close>.
\<close>

theorem chunk_generation_terminates_iff:
  "chunk_duration (init fs m L O') = L \<and> overlap_duration (init fs m L O') = O' \<and>
   (O' < L \<longrightarrow>
      (\<forall>s ff au. chunk_duration s = L \<and> overlap_duration s = O' \<longrightarrow>
         (\<exists>fuel. create_audio_chunks fuel ff take_chunk au s \<noteq> None))) \<and>
   (L \<le> O' \<longrightarrow>
      (\<forall>s ff au fuel. chunk_duration s = L \<and> overlap_duration s = O' \<and>
         0 < total_duration s \<and> is_running s \<and> \<not> is_interrupted s \<longrightarrow>
         create_audio_chunks fuel ff take_chunk au s = None)) \<and>
   (py_truediv D (L - O') = Inl ZeroDivisionError \<longleftrightarrow> L = O')"
proof (intro conjI impI allI)
  show "chunk_duration (init fs m L O') = L" by (simp add: init_def)
  show "overlap_duration (init fs m L O') = O'" by (simp add: init_def)
next
  fix s :: scribe and ff au
  assume lt: "O' < L" and cfg: "chunk_duration s = L \<and> overlap_duration s = O'"
  have "0 < L - O'" using lt by simp
  from chunk_loop_terminates[where body=take_chunk and ff=ff and au=au and L=L and pos=0
      and num=0 and s=s, OF this take_chunk_total_duration]
  show "\<exists>fuel. create_audio_chunks fuel ff take_chunk au s \<noteq> None"
    using cfg by (simp add: create_audio_chunks_def Let_def)
next
  fix s :: scribe and ff au fuel
  assume le: "L \<le> O'"
    and h: "chunk_duration s = L \<and> overlap_duration s = O' \<and>
         0 < total_duration s \<and> is_running s \<and> \<not> is_interrupted s"
  have "L - O' \<le> 0" using le by simp
  from chunk_loop_diverges[where pos=0 and s=s and fuel=fuel and ff=ff and au=au and L=L
      and num=0, OF this]
  show "create_audio_chunks fuel ff take_chunk au s = None"
    using h by (simp add: create_audio_chunks_def Let_def)
next
  show "py_truediv D (L - O') = Inl ZeroDivisionError \<longleftrightarrow> L = O'"
    by (auto simp add: py_truediv_def)
qed

theorem chunk_generation_terminates_iff_witness:
  "((5::int) < 30 \<and> chunk_duration (running_scribe 52 30 5) = 30 \<and>
      overlap_duration (running_scribe 52 30 5) = 5 \<and>
      (\<exists>fuel. create_audio_chunks fuel ffmpeg_ok take_chunk ''u'' (running_scribe 52 30 5) \<noteq> None)) \<and>
   ((5::int) \<le> 5 \<and> chunk_duration (running_scribe 10 5 5) = 5 \<and>
      overlap_duration (running_scribe 10 5 5) = 5 \<and> 0 < total_duration (running_scribe 10 5 5) \<and>
      is_running (running_scribe 10 5 5) \<and> \<not> is_interrupted (running_scribe 10 5 5) \<and>
      create_audio_chunks 1000 ffmpeg_ok take_chunk ''u'' (running_scribe 10 5 5) = None)"
proof -
  have a: "chunk_duration (running_scribe 52 30 5) = 30 \<and> overlap_duration (running_scribe 52 30 5) = 5"
    by (simp add: running_scribe_simps)
  have b: "chunk_duration (running_scribe 10 5 5) = 5 \<and> overlap_duration (running_scribe 10 5 5) = 5 \<and>
      0 < total_duration (running_scribe 10 5 5) \<and>
      is_running (running_scribe 10 5 5) \<and> \<not> is_interrupted (running_scribe 10 5 5)"
    by (simp add: running_scribe_simps)
  have t1: "\<exists>fuel. create_audio_chunks fuel ffmpeg_ok take_chunk ''u'' (running_scribe 52 30 5) \<noteq> None"
    using chunk_generation_terminates_iff[of Map.empty "[]" 30 5 0] a by simp
  have t2: "create_audio_chunks 1000 ffmpeg_ok take_chunk ''u'' (running_scribe 10 5 5) = None"
    using chunk_generation_terminates_iff[of Map.empty "[]" 5 5 0] b by simp
  from a b t1 t2 show ?thesis by simp
qed
subsection \<open>Interruption\<close>

text \<open>
  \<^bold>\<open>C2\<close> (as amended). On a termination signal the handler sets the interruption
  flag, clears the running flag and ends the process with status 0; the segments and
  the processed duration are left as they are. When at least one segment has been
  recorded, the file system gains exactly the resume snapshot, under the name of the
  output file followed by \<^verbatim>\<open>.resume.json\<close>, holding exactly the recorded segments,
  the processed duration, the total duration and the time. When no segment has been
  recorded, no file is written. In the main loop, a signal delivered while a chunk is
  held ends the loop at once with that exit: no further chunk is produced or consumed.
\<close>

theorem signal_handler_snapshot:
  "\<exists>s'. signal_handler now s = SysExit 0 s' \<and>
     is_interrupted s' \<and> \<not> is_running s' \<and>
     transcripts s' = transcripts s \<and> processed_duration s' = processed_duration s \<and>
     (transcripts s \<noteq> [] \<longrightarrow>
        files s' = (files s)(output_file_str s @ ''.resume.json'' \<mapsto>
          ResumeJson (transcripts s) (processed_duration s) (total_duration s) now)) \<and>
     (transcripts s = [] \<longrightarrow> files s' = files s) \<and>
     (\<forall>e c. signal_at e (chunk_number c) \<and> now_iso e = now \<longrightarrow>
        run_body e c s = SysExit 0 s' \<and>
        (\<forall>fuel ff au L step n a.
           is_running s \<and> \<not> is_interrupted s \<and> start_time c < total_duration s \<and> a \<noteq> [] \<and>
           ff (start_time c) au (min L (total_duration s - start_time c)) = Finished 0 a \<longrightarrow>
           map_option snd (chunk_loop (Suc fuel) ff (run_body e) au L step (start_time c) (chunk_number c) s)
             = Some (SysExit 0 s')))"
  by (simp add: signal_handler_def save_partial_results_def Let_def run_body_def
      chunk_loop.simps(2) output_file_str_def)

theorem signal_handler_snapshot_witness:
  "transcripts ((running_scribe 52 30 5)\<lparr>transcripts := [demo_transcript],
       output_file := Some ''out/a.txt'', processed_duration := 25\<rparr>) \<noteq> [] \<and>
   files (flow_state (signal_handler ''t1'' ((running_scribe 52 30 5)\<lparr>transcripts := [demo_transcript],
       output_file := Some ''out/a.txt'', processed_duration := 25\<rparr>))) ''out/a.txt.resume.json''
     = Some (ResumeJson [demo_transcript] 25 52 ''t1'')"
proof -
  let ?s = "(running_scribe 52 30 5)\<lparr>transcripts := [demo_transcript],
       output_file := Some ''out/a.txt'', processed_duration := 25\<rparr>"
  have ne: "transcripts ?s \<noteq> []" by simp
  from signal_handler_snapshot[of "''t1''" ?s] ne
  show ?thesis
    by (auto simp add: output_file_str_def running_scribe_def init_def)
qed

text \<open>
  The claim as stated includes \<open>N = 0\<close>; there the handler writes no snapshot: after the
  signal the file system has no resume file.
\<close>

theorem signal_handler_snapshot_counterexample:
  "transcripts ((running_scribe 52 30 5)\<lparr>output_file := Some ''out/a.txt''\<rparr>) = [] \<and>
   signal_handler ''t1'' ((running_scribe 52 30 5)\<lparr>output_file := Some ''out/a.txt''\<rparr>)
     = SysExit 0 ((running_scribe 52 30 5)\<lparr>output_file := Some ''out/a.txt'',
          is_interrupted := True, is_running := False\<rparr>) \<and>
   files ((running_scribe 52 30 5)\<lparr>output_file := Some ''out/a.txt'',
          is_interrupted := True, is_running := False\<rparr>) ''out/a.txt.resume.json'' = None"
  by (simp add: signal_handler_def save_partial_results_def Let_def running_scribe_def init_def)

subsection \<open>Empty transcriptions\<close>



subsection \<open>The SRT file\<close>






subsection \<open>Invariants of the main loop\<close>

lemma chunk_loop_rule:
  assumes skip: "\<And>n s p. P n s \<Longrightarrow> P (n + 1) (s\<lparr>processed_duration := p\<rparr>)"
    and body: "\<And>c n s. P n s \<Longrightarrow> chunk_number c = n \<Longrightarrow>
                 duration c = min L (total_duration s - start_time c) \<Longrightarrow>
                 start_time c < total_duration s \<Longrightarrow>
                 Q n (flow_state (body c s))"
    and resume: "\<And>n s p. Q n s \<Longrightarrow> P (n + 1) (s\<lparr>processed_duration := p\<rparr>)"
    and finP: "\<And>n s. P n s \<Longrightarrow> R s"
    and finQ: "\<And>n s. Q n s \<Longrightarrow> R s"
  shows "P num s \<Longrightarrow> chunk_loop fuel ff body au L step pos num s = Some (cs, r) \<Longrightarrow>
         R (flow_state r)"
proof (induction fuel arbitrary: pos num s cs r)
  case 0
  then show ?case by simp
next
  case (Suc fuel)
  show ?case
  proof (cases "pos < total_duration s \<and> is_running s \<and> \<not> is_interrupted s")
    case False
    then have d: "\<not> (pos < total_duration s \<and> is_running s) \<or> is_interrupted s" by auto
    show ?thesis using Suc.prems finP by (auto simp add: chunk_loop_done[OF d])
  next
    case True
    then have act: "pos < total_duration s" "is_running s" "\<not> is_interrupted s" by auto
    note run = Suc.prems(2)[unfolded chunk_loop_active[OF act]]
    show ?thesis
    proof (cases "ff pos au (min L (total_duration s - pos))")
      case PopenError
      then show ?thesis using run Suc.IH[OF Suc.prems(1)] by auto
    next
      case (Finished rc a)
      show ?thesis
      proof (cases "rc \<noteq> 0")
        case True
        then show ?thesis using run Finished Suc.IH[OF Suc.prems(1)] by auto
      next
        case rc0: False
        show ?thesis
        proof (cases "a = []")
          case True
          then show ?thesis
            using run Finished rc0 Suc.IH[OF skip[OF Suc.prems(1)]] by auto
        next
          case ne: False
          let ?c = "\<lparr>start_time = pos, duration = min L (total_duration s - pos),
                        chunk_number = num, data = a\<rparr>"
          have b: "Q num (flow_state (body ?c s))"
            using body[of num s ?c] Suc.prems(1) act(1) by simp
          show ?thesis
          proof (cases "body ?c s")
            case (Normal s')
            then have "P (num + 1) (s'\<lparr>processed_duration := pos + step\<rparr>)"
              using b resume by simp
            from Suc.IH[OF this] show ?thesis
              using run Finished rc0 ne Normal by auto
          next
            case (Break s')
            then show ?thesis using run Finished rc0 ne b finQ by auto
          next
            case (Raise e s')
            then show ?thesis using run Finished rc0 ne b finQ by auto
          next
            case (SysExit n s')
            then show ?thesis using run Finished rc0 ne b finQ by auto
          qed
        qed
      qed
    qed
  qed
qed

lemma chunk_loop_exit:
  "chunk_loop fuel ff body au L step pos num s = Some (cs, r) \<Longrightarrow>
   (\<exists>s'. r = Normal s') \<or> (\<exists>c s0. body c s0 = r)"
proof (induction fuel arbitrary: pos num s cs r)
  case 0
  then show ?case by simp
next
  case (Suc fuel)
  show ?case
  proof (cases "pos < total_duration s \<and> is_running s \<and> \<not> is_interrupted s")
    case False
    then have d: "\<not> (pos < total_duration s \<and> is_running s) \<or> is_interrupted s" by auto
    show ?thesis using Suc.prems by (auto simp add: chunk_loop_done[OF d])
  next
    case True
    then have act: "pos < total_duration s" "is_running s" "\<not> is_interrupted s" by auto
    note run = Suc.prems(1)[unfolded chunk_loop_active[OF act]]
    show ?thesis
    proof (cases "ff pos au (min L (total_duration s - pos))")
      case PopenError
      then show ?thesis using run Suc.IH by auto
    next
      case (Finished rc a)
      show ?thesis
      proof (cases "rc \<noteq> 0 \<or> a = []")
        case True
        then show ?thesis using run Finished Suc.IH by (auto split: if_splits)
      next
        case False
        let ?c = "\<lparr>start_time = pos, duration = min L (total_duration s - pos),
                        chunk_number = num, data = a\<rparr>"
        show ?thesis
        proof (cases "body ?c s")
          case (Normal s')
          with run Finished False obtain cs' where
            "chunk_loop fuel ff body au L step (pos + step) (num + 1)
               (s'\<lparr>processed_duration := pos + step\<rparr>) = Some (cs', r)"
            by auto
          from Suc.IH[OF this] show ?thesis .
        next
          case (Break s')
          then show ?thesis using run Finished False by auto
        next
          case (Raise e s')
          then show ?thesis using run Finished False by auto
        next
          case (SysExit n s')
          then show ?thesis using run Finished False by auto
        qed
      qed
    qed
  qed
qed

text \<open>What the body of the main loop does to the object.\<close>

lemma save_transcript_transcripts:
  "transcripts (save_transcript t fmt s) =
     (if output_file s = None \<or> output_file s = Some [] then transcripts s
      else transcripts s @ [t])"
  by (auto simp add: save_transcript_def Let_def split: option.split)

lemma transcribe_audio_chunk_Some:
  "transcribe_audio_chunk whisper now c = Some t \<Longrightarrow>
   start_time t = start_time c \<and> duration t = duration c \<and>
   chunk_number t = chunk_number c \<and> end_time t = start_time c + duration c \<and> text t \<noteq> []"
  by (auto simp add: transcribe_audio_chunk_def Let_def split: whisper_result.splits if_splits)

lemma run_body_effect:
  "total_duration (flow_state (run_body e c s)) = total_duration s \<and>
   chunk_duration (flow_state (run_body e c s)) = chunk_duration s \<and>
   overlap_duration (flow_state (run_body e c s)) = overlap_duration s \<and>
   (transcripts (flow_state (run_body e c s)) = transcripts s \<or>
    (\<exists>t. transcripts (flow_state (run_body e c s)) = transcripts s @ [t] \<and>
         start_time t = start_time c \<and> duration t = duration c \<and>
         chunk_number t = chunk_number c \<and> end_time t = start_time c + duration c))"
proof (cases "transcribe_audio_chunk (whisper_transcribe e) (now_iso e) c")
  case None
  then show ?thesis
    by (simp add: run_body_def signal_handler_def Let_def save_partial_results_fields)
next
  case (Some t)
  from transcribe_audio_chunk_Some[OF Some] show ?thesis
    using Some
    by (simp add: run_body_def signal_handler_def Let_def save_partial_results_fields
        save_transcript_fields save_transcript_transcripts)
qed

lemma run_body_flow:
  "(\<exists>s'. run_body e c s = Normal s') \<or> (\<exists>s'. run_body e c s = Break s') \<or>
   (\<exists>s'. run_body e c s = SysExit 0 s')"
  by (simp add: run_body_def signal_handler_def Let_def)

lemma run_loop_invariant:
  assumes run: "chunk_loop fuel ff (run_body e) au L step pos num s = Some (cs, r)"
  shows "prefix (transcripts s) (transcripts (flow_state r)) \<and>
     total_duration (flow_state r) = total_duration s \<and>
     chunk_duration (flow_state r) = chunk_duration s \<and>
     overlap_duration (flow_state r) = overlap_duration s \<and>
     (transcripts s = [] \<longrightarrow>
        sorted_wrt (<) (map chunk_number (transcripts (flow_state r))) \<and>
        (\<forall>t\<in>set (transcripts (flow_state r)). good_segment (total_duration s) L t))"
proof -
  define ts0 where "ts0 = transcripts s"
  define D where "D = total_duration s"
  define C where "C = chunk_duration s"
  define V where "V = overlap_duration s"
  define B where "B = (\<lambda>(n::int) (x::scribe).
     prefix ts0 (transcripts x) \<and> total_duration x = D \<and> chunk_duration x = C \<and>
     overlap_duration x = V \<and>
     (ts0 = [] \<longrightarrow> sorted_wrt (<) (map chunk_number (transcripts x)) \<and>
        (\<forall>t\<in>set (transcripts x). chunk_number t < n \<and> good_segment D L t)))"
  define R where "R = (\<lambda>x::scribe.
     prefix ts0 (transcripts x) \<and> total_duration x = D \<and> chunk_duration x = C \<and>
     overlap_duration x = V \<and>
     (ts0 = [] \<longrightarrow> sorted_wrt (<) (map chunk_number (transcripts x)) \<and>
        (\<forall>t\<in>set (transcripts x). good_segment D L t)))"
  have init: "B num s"
    by (simp add: B_def ts0_def D_def C_def V_def)
  have skip: "\<And>n x p. B n x \<Longrightarrow> B (n + 1) (x\<lparr>processed_duration := p\<rparr>)"
    unfolding B_def by auto
  have resume: "\<And>n x p. B (n + 1) x \<Longrightarrow> B (n + 1) (x\<lparr>processed_duration := p\<rparr>)"
    unfolding B_def by auto
  have body: "B (n + 1) (flow_state (run_body e c x))"
    if b: "B n x" and cn: "chunk_number c = n"
      and du: "duration c = min L (total_duration x - start_time c)"
      and st: "start_time c < total_duration x" for c n x
  proof -
    let ?x' = "flow_state (run_body e c x)"
    from run_body_effect[of e c x] have
      f: "total_duration ?x' = total_duration x" "chunk_duration ?x' = chunk_duration x"
         "overlap_duration ?x' = overlap_duration x"
      and t: "transcripts ?x' = transcripts x \<or>
        (\<exists>t. transcripts ?x' = transcripts x @ [t] \<and>
         start_time t = start_time c \<and> duration t = duration c \<and>
         chunk_number t = chunk_number c \<and> end_time t = start_time c + duration c)"
      by auto
    from t show ?thesis
    proof
      assume same: "transcripts ?x' = transcripts x"
      show ?thesis using b f same unfolding B_def by auto
    next
      assume "\<exists>t. transcripts ?x' = transcripts x @ [t] \<and>
         start_time t = start_time c \<and> duration t = duration c \<and>
         chunk_number t = chunk_number c \<and> end_time t = start_time c + duration c"
      then obtain t where app: "transcripts ?x' = transcripts x @ [t]"
        and tt: "start_time t = start_time c" "duration t = duration c"
          "chunk_number t = chunk_number c" "end_time t = start_time c + duration c"
        by blast
      have g: "good_segment D L t"
        using tt du st b unfolding good_segment_def B_def by simp
      have p: "prefix ts0 (transcripts ?x')"
        using b app unfolding B_def by (simp add: prefix_def) (metis append.assoc)
      have srt: "ts0 = [] \<longrightarrow> sorted_wrt (<) (map chunk_number (transcripts ?x')) \<and>
        (\<forall>t\<in>set (transcripts ?x'). chunk_number t < n + 1 \<and> good_segment D L t)"
        using b app tt(3) cn g unfolding B_def
        by (auto simp add: sorted_wrt_append)
      show ?thesis using b f p srt unfolding B_def by simp
    qed
  qed
  have finB: "\<And>n x. B n x \<Longrightarrow> R x" unfolding B_def R_def by auto
  have "R (flow_state r)"
    by (rule chunk_loop_rule[where P=B and Q="\<lambda>n. B (n + 1)" and R=R and body="run_body e"
          and L=L, OF skip body resume finB finB init run])
  then show ?thesis
    unfolding R_def ts0_def D_def C_def V_def by simp
qed

lemma load_whisper_model_fields:
  "load_whisper_model e s = Inr s1 \<Longrightarrow>
   transcripts s1 = transcripts s \<and> chunk_duration s1 = chunk_duration s \<and>
   overlap_duration s1 = overlap_duration s \<and> files s1 = files s"
  by (auto simp add: load_whisper_model_def split: if_splits)

lemma extract_youtube_info_fields:
  "extract_youtube_info e u s = Inr (info, s1) \<Longrightarrow>
   transcripts s1 = transcripts s \<and> chunk_duration s1 = chunk_duration s \<and>
   overlap_duration s1 = overlap_duration s \<and> files s1 = files s"
  by (auto simp add: extract_youtube_info_def Let_def split: option.splits)

lemma save_final_results_fields:
  "save_final_results info now s = Inr s1 \<Longrightarrow>
   transcripts s1 = transcripts s \<and> chunk_duration s1 = chunk_duration s \<and>
   overlap_duration s1 = overlap_duration s \<and> total_duration s1 = total_duration s"
  by (auto simp add: save_final_results_def Let_def split: if_splits option.splits)

text \<open>The state in which \<^verbatim>\<open>run\<close> enters its main loop.\<close>

lemma run_try_cases:
  assumes "run_try fuel e u d s = Some r"
  shows "(transcripts (flow_state r) = transcripts s \<and>
          chunk_duration (flow_state r) = chunk_duration s \<and>
          (\<exists>err x. r = Raise err x \<or> r = Normal x)) \<or>
         (\<exists>x au cs r'. transcripts x = transcripts s \<and> chunk_duration x = chunk_duration s \<and>
            overlap_duration x = overlap_duration s \<and>
            create_audio_chunks fuel (ffmpeg e) (run_body e) au x = Some (cs, r') \<and>
            transcripts (flow_state r) = transcripts (flow_state r') \<and>
            total_duration (flow_state r) = total_duration (flow_state r') \<and>
            (r = r' \<or> (\<exists>y. r = Normal y) \<or> (\<exists>err y. r = Raise err y)))"
proof (cases "load_whisper_model e s")
  case (Inl err)
  then show ?thesis using assms by (auto simp add: run_try_def)
next
  case (Inr s1)
  note s1 = load_whisper_model_fields[OF Inr]
  show ?thesis
  proof (cases "extract_youtube_info e u s1")
    case (Inl err)
    then show ?thesis using assms Inr s1 by (auto simp add: run_try_def)
  next
    case ex: (Inr p)
    obtain info s2 where p: "p = (info, s2)" by (cases p)
    note s2 = extract_youtube_info_fields[OF ex[unfolded p]]
    show ?thesis
    proof (cases "vi_audio_url info")
      case None
      then show ?thesis using assms Inr ex p s1 s2 by (auto simp add: run_try_def)
    next
      case (Some au)
      show ?thesis
      proof (cases "au = []")
        case True
        then show ?thesis using assms Inr ex p s1 s2 Some by (auto simp add: run_try_def)
      next
        case ne: False
        let ?s3 = "s2\<lparr>output_file := Some (path_join d
                       (safe_title (vi_title info) @ ''_'' @ now_stamp e @ ''.txt''))\<rparr>"
        show ?thesis
        proof (cases "py_truediv (total_duration ?s3) (chunk_duration ?s3 - overlap_duration ?s3)")
          case (Inl err)
          then show ?thesis
            using assms Inr ex p s1 s2 Some ne by (auto simp add: run_try_def Let_def)
        next
          case q: (Inr q)
          let ?s5 = "?s3\<lparr>progress_bar := Some (py_int q + 1, 0), is_running := True\<rparr>"
          have rt: "run_try fuel e u d s =
            (case create_audio_chunks fuel (ffmpeg e) (run_body e) au ?s5 of
               None \<Rightarrow> None
             | Some (cs, Normal s6) \<Rightarrow>
                 if \<not> is_interrupted s6 then
                   (case save_final_results info (now_iso e) s6 of
                      Inl err \<Rightarrow> Some (Raise err s6)
                    | Inr s7 \<Rightarrow> Some (Normal s7))
                 else Some (Normal s6)
             | Some (cs, r) \<Rightarrow> Some r)"
            using Inr ex p Some ne q by (simp add: run_try_def Let_def)
          from assms rt obtain cs r' where
            c: "create_audio_chunks fuel (ffmpeg e) (run_body e) au ?s5 = Some (cs, r')"
            by (auto split: option.splits)
          have x: "transcripts ?s5 = transcripts s \<and> chunk_duration ?s5 = chunk_duration s \<and>
            overlap_duration ?s5 = overlap_duration s"
            using s1 s2 by simp
          have rel: "transcripts (flow_state r) = transcripts (flow_state r') \<and>
            total_duration (flow_state r) = total_duration (flow_state r') \<and>
            (r = r' \<or> (\<exists>y. r = Normal y) \<or> (\<exists>err y. r = Raise err y))"
            using assms rt c
            by (cases r') (auto split: if_splits sum.splits dest: save_final_results_fields)
          from x c rel show ?thesis by blast
        qed
      qed
    qed
  qed
qed

lemma run_cases:
  assumes "run fuel e u d s = Some r"
  shows "\<exists>r0. run_try fuel e u d s = Some r0 \<and>
     transcripts (flow_state r) = transcripts (flow_state r0) \<and>
     total_duration (flow_state r) = total_duration (flow_state r0) \<and>
     chunk_duration (flow_state r) = chunk_duration (flow_state r0) \<and>
     ((\<exists>y. r = Normal y) \<or> (\<exists>n y. r = SysExit n y \<and> (\<exists>y0. r0 = SysExit n y0)))"
  using assms
  by (cases "run_try fuel e u d s"; cases "the (run_try fuel e u d s)")
     (auto simp add: run_def)

lemma create_audio_chunks_run_invariant:
  assumes "create_audio_chunks fuel ff (run_body e) au x = Some (cs, r)"
  shows "prefix (transcripts x) (transcripts (flow_state r)) \<and>
     total_duration (flow_state r) = total_duration x \<and>
     chunk_duration (flow_state r) = chunk_duration x \<and>
     (transcripts x = [] \<longrightarrow>
        sorted_wrt (<) (map chunk_number (transcripts (flow_state r))) \<and>
        (\<forall>t\<in>set (transcripts (flow_state r)).
           good_segment (total_duration x) (chunk_duration x) t))"
  using run_loop_invariant[of fuel ff e au "chunk_duration x"
      "chunk_duration x - overlap_duration x" 0 0 x cs r] assms
  by (simp add: create_audio_chunks_def Let_def)

lemma run_invariant:
  assumes "run fuel e u d s = Some r"
  shows "prefix (transcripts s) (transcripts (flow_state r)) \<and>
     (transcripts s = [] \<longrightarrow>
        sorted_wrt (<) (map chunk_number (transcripts (flow_state r))) \<and>
        (\<forall>t\<in>set (transcripts (flow_state r)).
           good_segment (total_duration (flow_state r)) (chunk_duration s) t))"
proof -
  from run_cases[OF assms] obtain r0 where
    r0: "run_try fuel e u d s = Some r0"
    and eq: "transcripts (flow_state r) = transcripts (flow_state r0)"
      "total_duration (flow_state r) = total_duration (flow_state r0)"
    by blast
  from run_try_cases[OF r0] show ?thesis
  proof
    assume "transcripts (flow_state r0) = transcripts s \<and>
          chunk_duration (flow_state r0) = chunk_duration s \<and>
          (\<exists>err x. r0 = Raise err x \<or> r0 = Normal x)"
    then show ?thesis using eq by simp
  next
    assume "\<exists>x au cs r'. transcripts x = transcripts s \<and> chunk_duration x = chunk_duration s \<and>
            overlap_duration x = overlap_duration s \<and>
            create_audio_chunks fuel (ffmpeg e) (run_body e) au x = Some (cs, r') \<and>
            transcripts (flow_state r0) = transcripts (flow_state r') \<and>
            total_duration (flow_state r0) = total_duration (flow_state r') \<and>
            (r0 = r' \<or> (\<exists>y. r0 = Normal y) \<or> (\<exists>err y. r0 = Raise err y))"
    then obtain x au cs r' where
      x: "transcripts x = transcripts s" "chunk_duration x = chunk_duration s"
      and c: "create_audio_chunks fuel (ffmpeg e) (run_body e) au x = Some (cs, r')"
      and e2: "transcripts (flow_state r0) = transcripts (flow_state r')"
        "total_duration (flow_state r0) = total_duration (flow_state r')"
      by blast
    from create_audio_chunks_run_invariant[OF c] show ?thesis
      using x eq e2 by simp
  qed
qed

text \<open>
  \<^bold>\<open>C8.\<close> The transcript sequence is append-only. \<^verbatim>\<open>save_transcript\<close> appends its
  segment at the end (or does nothing when no output file is set); saving partial or
  final results, the signal handler, loading the model and extracting the video
  information leave the sequence as it is; the body of the main loop, the whole loop and
  the whole of \<^verbatim>\<open>run\<close> leave the sequence they started with as a prefix of the
  sequence they end with. A run that starts with no segments ends with the segments in
  creation order: their chunk numbers increase strictly.
\<close>

theorem transcripts_append_only:
  "transcripts (save_transcript t fmt s) =
     (if output_file s = None \<or> output_file s = Some [] then transcripts s
      else transcripts s @ [t]) \<and>
   transcripts (save_partial_results now s) = transcripts s \<and>
   transcripts (flow_state (signal_handler now s)) = transcripts s \<and>
   (\<forall>s'. load_whisper_model e s = Inr s' \<longrightarrow> transcripts s' = transcripts s) \<and>
   (\<forall>u info s'. extract_youtube_info e u s = Inr (info, s') \<longrightarrow> transcripts s' = transcripts s) \<and>
   (\<forall>info s'. save_final_results info now s = Inr s' \<longrightarrow> transcripts s' = transcripts s) \<and>
   prefix (transcripts s) (transcripts (flow_state (run_body e c s))) \<and>
   (\<forall>fuel ff au cs r. create_audio_chunks fuel ff (run_body e) au s = Some (cs, r) \<longrightarrow>
      prefix (transcripts s) (transcripts (flow_state r))) \<and>
   (\<forall>fuel u d r. run fuel e u d s = Some r \<longrightarrow>
      prefix (transcripts s) (transcripts (flow_state r)) \<and>
      (transcripts s = [] \<longrightarrow>
         sorted_wrt (<) (map chunk_number (transcripts (flow_state r)))))"
proof (intro conjI allI impI)
  show "transcripts (save_transcript t fmt s) =
     (if output_file s = None \<or> output_file s = Some [] then transcripts s
      else transcripts s @ [t])"
    by (rule save_transcript_transcripts)
  show "transcripts (save_partial_results now s) = transcripts s"
    by (simp add: save_partial_results_fields)
  show "transcripts (flow_state (signal_handler now s)) = transcripts s"
    by (simp add: signal_handler_def Let_def save_partial_results_fields)
  show "prefix (transcripts s) (transcripts (flow_state (run_body e c s)))"
    using run_body_effect[of e c s] by (auto simp add: prefix_def)
next
  fix s' assume "load_whisper_model e s = Inr s'"
  then show "transcripts s' = transcripts s" by (simp add: load_whisper_model_fields)
next
  fix u info s' assume "extract_youtube_info e u s = Inr (info, s')"
  then show "transcripts s' = transcripts s" by (simp add: extract_youtube_info_fields)
next
  fix info s' assume "save_final_results info now s = Inr s'"
  then show "transcripts s' = transcripts s" by (simp add: save_final_results_fields)
next
  fix fuel ff au cs r
  assume "create_audio_chunks fuel ff (run_body e) au s = Some (cs, r)"
  from create_audio_chunks_run_invariant[OF this]
  show "prefix (transcripts s) (transcripts (flow_state r))" by simp
next
  fix fuel u d r
  assume r: "run fuel e u d s = Some r"
  from run_invariant[OF r]
  show "prefix (transcripts s) (transcripts (flow_state r))" by simp
  assume "transcripts s = []"
  with run_invariant[OF r]
  show "sorted_wrt (<) (map chunk_number (transcripts (flow_state r)))" by simp
qed

theorem transcripts_append_only_witness:
  "transcripts (init Map.empty ''base'' 30 5) = [] \<and>
   (\<exists>r. run 4 demo_env ''u'' ''out'' (init Map.empty ''base'' 30 5) = Some r \<and>
      segment_ranges r = [(0, 30), (25, 52), (50, 52)] \<and>
      prefix (transcripts (init Map.empty ''base'' 30 5)) (transcripts (flow_state r)) \<and>
      sorted_wrt (<) (map chunk_number (transcripts (flow_state r))))"
proof -
  have e: "transcripts (init Map.empty ''base'' 30 5) = []" by (simp add: init_def)
  have "map_option segment_ranges (run 4 demo_env ''u'' ''out'' (init Map.empty ''base'' 30 5))
     = Some [(0, 30), (25, 52), (50, 52)]"
    by code_simp
  then obtain r where r: "run 4 demo_env ''u'' ''out'' (init Map.empty ''base'' 30 5) = Some r"
    and g: "segment_ranges r = [(0, 30), (25, 52), (50, 52)]"
    by auto
  from transcripts_append_only[of _ _ "init Map.empty ''base'' 30 5" _ demo_env]
  have "\<forall>fuel u d r. run fuel demo_env u d (init Map.empty ''base'' 30 5) = Some r \<longrightarrow>
      prefix (transcripts (init Map.empty ''base'' 30 5)) (transcripts (flow_state r)) \<and>
      (transcripts (init Map.empty ''base'' 30 5) = [] \<longrightarrow>
         sorted_wrt (<) (map chunk_number (transcripts (flow_state r))))"
    by blast
  with r e have "prefix (transcripts (init Map.empty ''base'' 30 5)) (transcripts (flow_state r)) \<and>
      sorted_wrt (<) (map chunk_number (transcripts (flow_state r)))"
    by blast
  with e r g show ?thesis by blast
qed




subsection \<open>The exit status\<close>

lemma run_flow:
  assumes "run fuel e u d s = Some r"
  shows "(\<exists>y. r = Normal y) \<or> (\<exists>y. r = SysExit 0 y)"
proof -
  from run_cases[OF assms] obtain r0 where
    r0: "run_try fuel e u d s = Some r0"
    and k: "(\<exists>y. r = Normal y) \<or> (\<exists>n y. r = SysExit n y \<and> (\<exists>y0. r0 = SysExit n y0))"
    by blast
  from k show ?thesis
  proof
    assume "\<exists>y. r = Normal y" then show ?thesis by blast
  next
    assume "\<exists>n y. r = SysExit n y \<and> (\<exists>y0. r0 = SysExit n y0)"
    then obtain n y y0 where r: "r = SysExit n y" and ry: "r0 = SysExit n y0" by blast
    from run_try_cases[OF r0] ry obtain x au cs where
      "create_audio_chunks fuel (ffmpeg e) (run_body e) au x = Some (cs, SysExit n y0)"
      by auto
    then have "chunk_loop fuel (ffmpeg e) (run_body e) au (chunk_duration x)
        (chunk_duration x - overlap_duration x) 0 0 x = Some (cs, SysExit n y0)"
      by (simp add: create_audio_chunks_def Let_def)
    from chunk_loop_exit[OF this] obtain c s0 where "run_body e c s0 = SysExit n y0"
      by auto
    with run_body_flow[of e c s0] have "n = 0" by auto
    with r show ?thesis by blast
  qed
qed

lemma run_try_terminates:
  assumes "overlap_duration s < chunk_duration s"
  shows "\<exists>fuel. run_try fuel e u d s \<noteq> None"
proof (cases "load_whisper_model e s")
  case (Inl err)
  then show ?thesis by (simp add: run_try_def)
next
  case (Inr s1)
  note s1 = load_whisper_model_fields[OF Inr]
  show ?thesis
  proof (cases "extract_youtube_info e u s1")
    case (Inl err)
    then show ?thesis using Inr by (simp add: run_try_def)
  next
    case ex: (Inr p)
    obtain info s2 where p: "p = (info, s2)" by (cases p)
    note s2 = extract_youtube_info_fields[OF ex[unfolded p]]
    show ?thesis
    proof (cases "vi_audio_url info")
      case None
      then show ?thesis using Inr ex p by (simp add: run_try_def)
    next
      case (Some au)
      show ?thesis
      proof (cases "au = []")
        case True
        then show ?thesis using Inr ex p Some by (simp add: run_try_def)
      next
        case ne: False
        let ?s3 = "s2\<lparr>output_file := Some (path_join d
                       (safe_title (vi_title info) @ ''_'' @ now_stamp e @ ''.txt''))\<rparr>"
        show ?thesis
        proof (cases "py_truediv (total_duration ?s3) (chunk_duration ?s3 - overlap_duration ?s3)")
          case (Inl err)
          then show ?thesis using Inr ex p Some ne by (simp add: run_try_def Let_def)
        next
          case q: (Inr q)
          let ?s5 = "?s3\<lparr>progress_bar := Some (py_int q + 1, 0), is_running := True\<rparr>"
          have rt: "run_try fuel e u d s =
            (case create_audio_chunks fuel (ffmpeg e) (run_body e) au ?s5 of
               None \<Rightarrow> None
             | Some (cs, Normal s6) \<Rightarrow>
                 if \<not> is_interrupted s6 then
                   (case save_final_results info (now_iso e) s6 of
                      Inl err \<Rightarrow> Some (Raise err s6)
                    | Inr s7 \<Rightarrow> Some (Normal s7))
                 else Some (Normal s6)
             | Some (cs, r) \<Rightarrow> Some r)" for fuel
            using Inr ex p Some ne q by (simp add: run_try_def Let_def)
          have st: "0 < chunk_duration ?s5 - overlap_duration ?s5"
            using assms s1 s2 by simp
          have kt: "\<And>c x. total_duration (flow_state (run_body e c x)) = total_duration x"
            by (rule run_body_total_duration)
          from chunk_loop_terminates[where body="run_body e" and ff="ffmpeg e" and au=au
              and L="chunk_duration ?s5" and pos=0 and num=0 and s="?s5", OF st kt]
          obtain fuel where
            "create_audio_chunks fuel (ffmpeg e) (run_body e) au ?s5 \<noteq> None"
            by (auto simp add: create_audio_chunks_def Let_def)
          then have "run_try fuel e u d s \<noteq> None"
            unfolding rt by (auto split: option.splits flow.splits sum.splits)
          then show ?thesis by blast
        qed
      qed
    qed
  qed
qed

text \<open>
  \<^bold>\<open>C4\<close> (as amended). For a parsed command line, whenever the process ends, its exit
  status is 0 or 1, and it is non-zero exactly when a package is missing at import
  time. With overlap below the chunk length the process does end. A video that cannot be
  reached ends the process with status 0: the exception is caught and reported inside
  \<^verbatim>\<open>run\<close>.
\<close>

theorem process_exit_status:
  "(\<forall>fuel status fs'. main fuel e fs a = Some (status, fs') \<longrightarrow>
      (status \<noteq> 0 \<longleftrightarrow> \<not> imports_ok e) \<and> (status = 0 \<or> status = 1)) \<and>
   (arg_overlap a < arg_chunk_duration a \<longrightarrow> (\<exists>fuel. main fuel e fs a \<noteq> None)) \<and>
   (imports_ok e \<and> ydl_extract_info e (arg_url a) = None \<longrightarrow>
      (\<forall>fuel. exit_status (main fuel e fs a) = Some 0))"
proof -
  let ?s = "init fs (arg_model a) (arg_chunk_duration a) (arg_overlap a)"
  have A: "(status \<noteq> 0 \<longleftrightarrow> \<not> imports_ok e) \<and> (status = 0 \<or> status = 1)"
    if m: "main fuel e fs a = Some (status, fs')" for fuel status fs'
  proof (cases "imports_ok e")
    case False
    then show ?thesis using m by (simp add: main_def)
  next
    case True
    from m True obtain r where r: "run fuel e (arg_url a) (arg_output_dir a) ?s = Some r"
      by (auto simp add: main_def Let_def split: option.splits)
    from run_flow[OF r] have "status = 0"
      using m True r by (auto simp add: main_def Let_def)
    then show ?thesis using True by simp
  qed
  have B: "\<exists>fuel. main fuel e fs a \<noteq> None" if lt: "arg_overlap a < arg_chunk_duration a"
  proof -
    have "overlap_duration ?s < chunk_duration ?s" using lt by (simp add: init_def)
    from run_try_terminates[OF this, of e "arg_url a" "arg_output_dir a"]
    obtain fuel where "run_try fuel e (arg_url a) (arg_output_dir a) ?s \<noteq> None" by blast
    then have "run fuel e (arg_url a) (arg_output_dir a) ?s \<noteq> None"
      by (auto simp add: run_def split: option.splits flow.splits)
    then have "main fuel e fs a \<noteq> None"
      by (auto simp add: main_def Let_def split: option.splits flow.splits)
    then show ?thesis by blast
  qed
  have C: "exit_status (main fuel e fs a) = Some 0"
    if h: "imports_ok e \<and> ydl_extract_info e (arg_url a) = None" for fuel
  proof -
    have "\<exists>err x. run_try fuel e (arg_url a) (arg_output_dir a) ?s = Some (Raise err x)"
      using h by (cases "load_whisper_model e ?s")
        (auto simp add: run_try_def extract_youtube_info_def)
    then obtain x where "run fuel e (arg_url a) (arg_output_dir a) ?s = Some (Normal x)"
      by (auto simp add: run_def)
    then show ?thesis
      using h by (simp add: main_def Let_def exit_status_def)
  qed
  from A B C show ?thesis by blast
qed

theorem process_exit_status_witness:
  "arg_overlap demo_args < arg_chunk_duration demo_args \<and>
   (\<exists>fuel. main fuel demo_env Map.empty demo_args \<noteq> None) \<and>
   exit_status (main 4 demo_env Map.empty demo_args) = Some 0 \<and>
   imports_ok demo_env \<and>
   exit_status (main 4 (demo_env\<lparr>imports_ok := False\<rparr>) Map.empty demo_args) = Some 1"
proof -
  have lt: "arg_overlap demo_args < arg_chunk_duration demo_args"
    by (simp add: demo_args_def)
  have t: "\<exists>fuel. main fuel demo_env Map.empty demo_args \<noteq> None"
    using process_exit_status[of demo_env Map.empty demo_args] lt by blast
  have m: "exit_status (main 4 demo_env Map.empty demo_args) = Some 0" by code_simp
  then obtain fs' where "main 4 demo_env Map.empty demo_args = Some (0, fs')"
    by (auto simp add: exit_status_def)
  with process_exit_status[of demo_env Map.empty demo_args]
  have i: "imports_ok demo_env" by blast
  have n: "exit_status (main 4 (demo_env\<lparr>imports_ok := False\<rparr>) Map.empty demo_args) = Some 1"
    by (simp add: main_def exit_status_def)
  from lt i t m n show ?thesis by simp
qed

text \<open>
  The claim as stated counts an unreachable video among the failures with a non-zero
  status; the process ends with status 0 there.
\<close>

theorem process_exit_status_counterexample:
  "imports_ok unreachable_env \<and>
   ydl_extract_info unreachable_env (arg_url demo_args) = None \<and>
   exit_status (main 0 unreachable_env Map.empty demo_args) = Some 0"
  by code_simp
end
